theory Spec2Isabelle
  imports Main "HOL-Library.Word"
begin

section \<open>The repository collector of legitify (package collectors)\<close>

text \<open>
  The collector walks the repositories of every organization through a cursor-based
  GraphQL query, enriches each repository through REST calls, records the
  permissions it found missing and emits the enriched repository.

  The remote platform is a state \<open>'w\<close> that every network call may read and change,
  so that two calls with the same arguments may be answered differently (a query
  that fails twice and then succeeds). The collector's own effects are fields of
  \<open>state\<close>: the missing-permission records, the emitted entities, the progress
  counters, the log, and the trace of the network calls made.

  Organization logins and branch names are non-null in the platform's schema and
  are plain strings here; the payloads the collector only passes on (hooks, users,
  protection rules, scorecard results) are opaque identifiers.
\<close>

subsection \<open>Data\<close>

type_synonym Hook = string
type_synonym User = string
type_synonym BranchProtectionRule = string
type_synonym ScorecardResult = string
type_synonym Role = string

text \<open>\<open>github.ErrorResponse\<close> (with its message), the sentinel
  \<open>github.ErrBranchNotProtected\<close>, and every other error value.\<close>

datatype error =
    ErrorResponse (Message: string)
  | ErrBranchNotProtected
  | OtherError string

text \<open>\<open>*github.Response\<close>: the HTTP status and the number of the next page
  (0 when there is none). A nil pointer is \<open>None\<close> at the places that hold one.\<close>

record Response =
  StatusCode :: nat
  NextPage :: nat

record DefaultBranchRef =
  RefName :: string
  BranchProtectionRule :: "BranchProtectionRule option"

text \<open>\<open>ghcollected.GitHubQLRepository\<close>, the node of the structured query.\<close>

record GitHubQLRepository =
  Name :: string
  Url :: string
  IsPrivate :: bool
  ViewerPermission :: Role
  DefaultBranchRef :: "DefaultBranchRef option"

text \<open>\<open>ghcollected.Repository\<close>. A nil slice or pointer is \<open>None\<close>.\<close>

record Repository =
  Repository :: GitHubQLRepository
  VulnerabilityAlertsEnabled :: "bool option"
  Hooks :: "Hook list option"
  Collaborators :: "User list option"
  NoBranchProtectionPermission :: bool
  Scorecard :: "ScorecardResult option"

text \<open>\<open>ghcollected.ExtendedOrg\<close>; \<open>IsFree\<close> holds what its method \<open>IsFree()\<close>
  answers.\<close>

record ExtendedOrg =
  Login :: string
  OrgRole :: Role
  IsFree :: bool

datatype Permission = RepoAdmin | RepoHookRead

datatype Namespace = NamespaceRepository

record missingPermission =
  Permission :: Permission
  Entity :: string
  Effect :: string
  MPNamespace :: Namespace

record collectedData =
  CollectedOrg :: ExtendedOrg
  CollectedEntity :: Repository
  CanonicalLink :: string
  ViewerRoles :: "Role list"

record GitHubQLPageInfo =
  HasNextPage :: bool
  EndCursor :: string

text \<open>What \<open>repoQuery\<close> is filled with.\<close>

record repoQuery =
  PageInfo :: GitHubQLPageInfo
  Nodes :: "GitHubQLRepository list"

text \<open>The answer of \<open>Repositories.ListHooks\<close>: hooks and a response, or an error
  with the response when the platform gave one (no response on a transport error).\<close>

datatype hooksReply =
    HooksOk "Hook list" Response
  | HooksErr "Response option" error

datatype logArg = ArgStr string | ArgErr error

datatype apiCall =
    CallCollectOrganizations
  | CallQueryTotalCount string "error + 32 word"
  | CallQueryRepositories string "string option" "error + repoQuery"
  | CallGetVulnerabilityAlerts string string
  | CallListHooks string string nat
  | CallListCollaborators string string
  | CallGetBranchProtection string string string
  | CallScorecard string bool

subsection \<open>The platform and the collector's state\<close>

record 'w Client =
  CollectOrganizations :: "'w \<Rightarrow> (error + ExtendedOrg list) \<times> 'w"
  QueryTotalCount :: "string \<Rightarrow> 'w \<Rightarrow> (error + 32 word) \<times> 'w"
  QueryRepositories :: "string \<Rightarrow> string option \<Rightarrow> 'w \<Rightarrow> (error + repoQuery) \<times> 'w"
  GetVulnerabilityAlerts :: "string \<Rightarrow> string \<Rightarrow> 'w \<Rightarrow> (error + bool) \<times> 'w"
  ListHooks :: "string \<Rightarrow> string \<Rightarrow> nat \<Rightarrow> 'w \<Rightarrow> hooksReply \<times> 'w"
  ListCollaborators :: "string \<Rightarrow> string \<Rightarrow> 'w \<Rightarrow> (error + User list option) \<times> 'w"
  GetBranchProtection :: "string \<Rightarrow> string \<Rightarrow> string \<Rightarrow> 'w \<Rightarrow> (error + BranchProtectionRule) \<times> 'w"
  ScorecardCalculate :: "string \<Rightarrow> bool \<Rightarrow> 'w \<Rightarrow> (error + ScorecardResult) \<times> 'w"
  scorecardEnabled :: bool

record 'w state =
  world :: 'w
  missingPermissions :: "missingPermission list"
  collected :: "collectedData list"
  totalEntities :: int
  processed :: nat
  logs :: "(string \<times> logArg list) list"
  calls :: "apiCall list"

text \<open>A unit of work returns its value and the state, or panics (a nil
  dereference) in the state it had reached.\<close>

datatype ('a, 's) outcome = Ret 'a 's | Panicked 's


subsection \<open>The collector's primitives\<close>

definition logPrintf :: "string \<Rightarrow> logArg list \<Rightarrow> 'w state \<Rightarrow> 'w state" where
  "logPrintf fmt args s = s\<lparr>logs := logs s @ [(fmt, args)]\<rparr>"

text \<open>A network call: the platform answers and changes, the call is appended to
  the trace.\<close>

definition netCall :: "('w \<Rightarrow> 'r \<times> 'w) \<Rightarrow> ('r \<Rightarrow> apiCall) \<Rightarrow> 'w state \<Rightarrow> 'r \<times> 'w state" where
  "netCall f tag s =
     (case f (world s) of
        (r, w) \<Rightarrow> (r, s\<lparr>world := w, calls := calls s @ [tag r]\<rparr>))"

text \<open>Modelled from the spec: \<open>fullRepoName\<close> is not in the sources. It builds the
  fully-qualified entity name of a repository from the login of its organization
  and its own name.\<close>

definition fullRepoName :: "string \<Rightarrow> string \<Rightarrow> string" where
  "fullRepoName org repo = org @ ''/'' @ repo"

text \<open>Modelled from the spec: \<open>newMissingPermission\<close> is not in the sources. A
  MissingPermission holds the required capability, the fully-qualified entity name,
  the effect and the namespace.\<close>

definition newMissingPermission :: "Permission \<Rightarrow> string \<Rightarrow> string \<Rightarrow> Namespace \<Rightarrow> missingPermission" where
  "newMissingPermission p e eff ns =
     \<lparr>Permission = p, Entity = e, Effect = eff, MPNamespace = ns\<rparr>"

text \<open>Modelled from the spec: \<open>issueMissingPermissions\<close> is a method of the base
  collector, which is not in the sources. The permission tracker is append-only:
  recording appends the events and collection goes on.\<close>

definition issueMissingPermissions :: "missingPermission list \<Rightarrow> 'w state \<Rightarrow> 'w state" where
  "issueMissingPermissions perms s = s\<lparr>missingPermissions := missingPermissions s @ perms\<rparr>"

text \<open>Modelled from the spec: \<open>collectData\<close> is a method of the base collector, which
  is not in the sources. The collector produces a channel of collected entities:
  the entity is emitted when the call is made.\<close>

definition collectData :: "ExtendedOrg \<Rightarrow> Repository \<Rightarrow> string \<Rightarrow> Role list \<Rightarrow> 'w state \<Rightarrow> 'w state" where
  "collectData org repo link roles s =
     s\<lparr>collected := collected s @
        [\<lparr>CollectedOrg = org, CollectedEntity = repo, CanonicalLink = link, ViewerRoles = roles\<rparr>]\<rparr>"

text \<open>Modelled from the spec: \<open>collectionChangeByOne\<close> and \<open>totalCollectionChange\<close>
  are methods of the base collector, which is not in the sources. The running total
  of processed entities is updated after each item completes; the expected total is
  changed by the given amount.\<close>

definition collectionChangeByOne :: "'w state \<Rightarrow> 'w state" where
  "collectionChangeByOne s = s\<lparr>processed := processed s + 1\<rparr>"

definition totalCollectionChange :: "int \<Rightarrow> 'w state \<Rightarrow> 'w state" where
  "totalCollectionChange n s = s\<lparr>totalEntities := totalEntities s + n\<rparr>"

text \<open>Modelled from the spec: the group waiter (\<open>group_waiter\<close>) is not in the
  sources. \<open>Do\<close> spawns a unit and \<open>Wait\<close> blocks until all of them have returned;
  each unit is individually fault-isolated. The units run here one at a time, in
  the order they are spawned: a unit that panics ends alone, in the state it had
  reached, and a unit that never returns blocks the wait (\<open>None\<close>).\<close>

definition gwDo :: "('s \<Rightarrow> (unit, 's) outcome option) \<Rightarrow> 's \<Rightarrow> 's option" where
  "gwDo unit s =
     (case unit s of
        None \<Rightarrow> None
      | Some (Ret _ s') \<Rightarrow> Some s'
      | Some (Panicked s') \<Rightarrow> Some s')"

text \<open>A unit that has no panic of its own.\<close>

definition returning :: "('s \<Rightarrow> 's option) \<Rightarrow> 's \<Rightarrow> (unit, 's) outcome option" where
  "returning f s = (case f s of None \<Rightarrow> None | Some s' \<Rightarrow> Some (Ret () s'))"

text \<open>Go's \<open>append(result, hooks...)\<close>: appending nothing to a nil slice leaves it nil.\<close>

definition appendSlice :: "'a list option \<Rightarrow> 'a list \<Rightarrow> 'a list option" where
  "appendSlice result xs =
     (case result of
        None \<Rightarrow> (if xs = [] then None else Some xs)
      | Some ys \<Rightarrow> Some (ys @ xs))"

text \<open>Modelled from the spec: \<open>ghclient.PaginateResults\<close> is not in the sources. The
  paginator drives a paged-REST endpoint to completion: it calls the page handler
  with the page options (first the default ones, page 0), stops and returns on the
  first error, stops when the response names no next page, and otherwise asks for
  the next page. The handler is a Go closure returning \<open>(*github.Response, error)\<close>
  over its captured variables \<open>'h\<close>. A platform that always names a next page keeps
  the loop running: the result is then \<open>None\<close>.\<close>

partial_function (option) PaginateResults ::
  "(nat \<Rightarrow> 'h \<Rightarrow> (Response option \<times> error option, 'h) outcome) \<Rightarrow> nat \<Rightarrow> 'h
     \<Rightarrow> (error option, 'h) outcome option" where
  "PaginateResults paginatedFunc page h =
     (case paginatedFunc page h of
        Panicked h' \<Rightarrow> Some (Panicked h')
      | Ret (_, Some err) h' \<Rightarrow> Some (Ret (Some err) h')
      | Ret (None, None) h' \<Rightarrow> Some (Panicked h')
      | Ret (Some resp, None) h' \<Rightarrow>
          (if NextPage resp = 0 then Some (Ret None h')
           else PaginateResults paginatedFunc (NextPage resp) h'))"

declare PaginateResults.simps [code]

subsection \<open>The enrichment stages\<close>

definition getVulnerabilityAlerts ::
  "'w Client \<Rightarrow> Repository \<Rightarrow> string \<Rightarrow> 'w state \<Rightarrow> Repository \<times> error option \<times> 'w state" where
  "getVulnerabilityAlerts rc repo org s =
     (case netCall (GetVulnerabilityAlerts rc org (Name (Repository repo)))
             (\<lambda>_. CallGetVulnerabilityAlerts org (Name (Repository repo))) s of
        (Inl err, s') \<Rightarrow> (repo, Some err, s')
      | (Inr enabled, s') \<Rightarrow> (repo\<lparr>VulnerabilityAlertsEnabled := Some enabled\<rparr>, None, s'))"

text \<open>The closure that \<open>getRepositoryHooks\<close> hands to the paginator. Its captured
  variables are \<open>result\<close> and the collector. On an error it reads
  \<open>resp.Response.StatusCode\<close>, which panics when there is no response.\<close>

definition listHooksPage ::
  "'w Client \<Rightarrow> Repository \<Rightarrow> string \<Rightarrow> nat \<Rightarrow> Hook list option \<times> 'w state
     \<Rightarrow> (Response option \<times> error option, Hook list option \<times> 'w state) outcome" where
  "listHooksPage rc repo org page h =
     (case h of (result, s) \<Rightarrow>
       (case netCall (ListHooks rc org (Name (Repository repo)) page)
               (\<lambda>_. CallListHooks org (Name (Repository repo)) page) s of
          (HooksErr None err, s') \<Rightarrow> Panicked (result, s')
        | (HooksErr (Some resp) err, s') \<Rightarrow>
            Ret (None, Some err)
              (result,
               if StatusCode resp = 404
               then issueMissingPermissions
                      [newMissingPermission RepoHookRead (fullRepoName org (Name (Repository repo)))
                         ''Cannot read repository webhooks'' NamespaceRepository] s'
               else s')
        | (HooksOk hooks resp, s') \<Rightarrow> Ret (Some resp, None) (appendSlice result hooks, s')))"

definition getRepositoryHooks ::
  "'w Client \<Rightarrow> Repository \<Rightarrow> string \<Rightarrow> 'w state
     \<Rightarrow> (Repository \<times> error option, 'w state) outcome option" where
  "getRepositoryHooks rc repo org s =
     (case PaginateResults (listHooksPage rc repo org) 0 (None, s) of
        None \<Rightarrow> None
      | Some (Panicked (result, s')) \<Rightarrow> Some (Panicked s')
      | Some (Ret (Some err) (result, s')) \<Rightarrow> Some (Ret (repo, Some err) s')
      | Some (Ret None (result, s')) \<Rightarrow> Some (Ret (repo\<lparr>Hooks := result\<rparr>, None) s'))"

definition getRepoCollaborators ::
  "'w Client \<Rightarrow> Repository \<Rightarrow> string \<Rightarrow> 'w state \<Rightarrow> Repository \<times> error option \<times> 'w state" where
  "getRepoCollaborators rc repo org s =
     (case netCall (ListCollaborators rc org (Name (Repository repo)))
             (\<lambda>_. CallListCollaborators org (Name (Repository repo))) s of
        (Inl err, s') \<Rightarrow> (repo, Some err, s')
      | (Inr users, s') \<Rightarrow> (repo\<lparr>Collaborators := users\<rparr>, None, s'))"

definition isNoPermErr :: "error \<Rightarrow> bool" where
  "isNoPermErr err = (case err of ErrorResponse m \<Rightarrow> m = ''Not Found'' | _ \<Rightarrow> False)"

definition fixBranchProtectionInfo ::
  "'w Client \<Rightarrow> Repository \<Rightarrow> string \<Rightarrow> 'w state \<Rightarrow> Repository \<times> error option \<times> 'w state" where
  "fixBranchProtectionInfo rc repository org s =
     (case DefaultBranchRef (Repository repository) of
        None \<Rightarrow> (repository, None, s)
      | Some ref \<Rightarrow>
          (case BranchProtectionRule ref of
             Some _ \<Rightarrow> (repository, None, s)
           | None \<Rightarrow>
               (case netCall (GetBranchProtection rc org (Name (Repository repository)) (RefName ref))
                       (\<lambda>_. CallGetBranchProtection org (Name (Repository repository)) (RefName ref)) s of
                  (Inr _, s') \<Rightarrow>
                    (repository, None,
                     logPrintf ''incosistent permissions (GitHub bug): graphQL query failed, but branch protection info is available. Ignoring'' [] s')
                | (Inl err, s') \<Rightarrow>
                    (if isNoPermErr err
                     then (repository\<lparr>NoBranchProtectionPermission := True\<rparr>, None, s')
                     else if err = ErrBranchNotProtected then (repository, None, s')
                     else (repository, Some err, s')))))"

definition checkMissingPermissions :: "Repository \<Rightarrow> string \<Rightarrow> missingPermission list" where
  "checkMissingPermissions repo entityName =
     (if NoBranchProtectionPermission repo
      then [] @ [newMissingPermission RepoAdmin entityName
                   ''Cannot read repository branch protection information'' NamespaceRepository]
      else [])"

definition orgIsFreeEffect :: string where
  "orgIsFreeEffect = ''Branch protection cannot be collected because the organization is in free plan''"


text \<open>\<open>if err != nil { log.Printf(fmt, args..., err) }\<close>\<close>

definition logIfErr :: "error option \<Rightarrow> string \<Rightarrow> logArg list \<Rightarrow> 'w state \<Rightarrow> 'w state" where
  "logIfErr err fmt args s =
     (case err of None \<Rightarrow> s | Some e \<Rightarrow> logPrintf fmt (args @ [ArgErr e]) s)"

text \<open>The branch-protection stage of \<open>collectExtraData\<close>: a free plan does not
  support branch protection unless the repository is public.\<close>

definition branchProtectionStage ::
  "'w Client \<Rightarrow> ExtendedOrg \<Rightarrow> GitHubQLRepository \<Rightarrow> Repository \<Rightarrow> string \<Rightarrow> 'w state
     \<Rightarrow> Repository \<times> 'w state" where
  "branchProtectionStage rc org repository repo login s =
     (if \<not> IsPrivate (Repository repo) \<or> \<not> IsFree org
      then (case fixBranchProtectionInfo rc repo login s of
              (repo', err, s') \<Rightarrow>
                (repo', logIfErr err ''error getting branch protection info for %s: %s''
                          [ArgStr (Name repository)] s'))
      else (repo,
            issueMissingPermissions
              [newMissingPermission RepoAdmin (fullRepoName login (Name (Repository repo)))
                 orgIsFreeEffect NamespaceRepository] s))"

text \<open>The scorecard stage of \<open>collectExtraData\<close>.\<close>

definition scorecardStage ::
  "'w Client \<Rightarrow> GitHubQLRepository \<Rightarrow> Repository \<Rightarrow> 'w state \<Rightarrow> Repository \<times> 'w state" where
  "scorecardStage rc repository repo s =
     (if scorecardEnabled rc
      then (case netCall (ScorecardCalculate rc (Url repository) (IsPrivate (Repository repo)))
                    (\<lambda>_. CallScorecard (Url repository) (IsPrivate (Repository repo))) s of
              (Inl err, s') \<Rightarrow>
                (repo\<lparr>Scorecard := None\<rparr>,
                 logPrintf ''error getting scorecard result for %s: %s''
                   [ArgStr (Name repository), ArgErr err] s')
            | (Inr scResult, s') \<Rightarrow> (repo\<lparr>Scorecard := Some scResult\<rparr>, s'))
      else (repo, s))"

definition newRepository :: "GitHubQLRepository \<Rightarrow> Repository" where
  "newRepository repository =
     \<lparr>Repository = repository, VulnerabilityAlertsEnabled = None, Hooks = None,
      Collaborators = None, NoBranchProtectionPermission = False, Scorecard = None\<rparr>"

definition collectExtraData ::
  "'w Client \<Rightarrow> ExtendedOrg \<Rightarrow> GitHubQLRepository \<Rightarrow> 'w state
     \<Rightarrow> (Repository, 'w state) outcome option" where
  "collectExtraData rc org repository s =
     (let login = Login org in
      case getVulnerabilityAlerts rc (newRepository repository) login s of
        (repo1, err1, s1) \<Rightarrow>
          (case getRepositoryHooks rc repo1 login
                  (logIfErr err1 ''error getting vulnerability alerts for %s: %s''
                     [ArgStr (fullRepoName login (Name (Repository repo1)))] s1) of
             None \<Rightarrow> None
           | Some (Panicked s2) \<Rightarrow> Some (Panicked s2)
           | Some (Ret (repo2, err2) s2) \<Rightarrow>
               (case getRepoCollaborators rc repo2 login
                       (logIfErr err2 ''error getting repository hooks for %s: %s''
                          [ArgStr (fullRepoName login (Name (Repository repo2)))] s2) of
                  (repo3, err3, s3) \<Rightarrow>
                    (case branchProtectionStage rc org repository repo3 login
                            (logIfErr err3 ''error getting repository collaborators for %s: %s''
                               [ArgStr (fullRepoName login (Name (Repository repo3)))] s3) of
                       (repo4, s4) \<Rightarrow>
                         (case scorecardStage rc repository repo4 s4 of
                            (repo5, s5) \<Rightarrow> Some (Ret repo5 s5))))))"

subsection \<open>The traversal\<close>

text \<open>The unit spawned for each node of a page.\<close>

definition processItem ::
  "'w Client \<Rightarrow> ExtendedOrg \<Rightarrow> GitHubQLRepository \<Rightarrow> 'w state \<Rightarrow> (unit, 'w state) outcome option" where
  "processItem rc org node s =
     (case collectExtraData rc org node s of
        None \<Rightarrow> None
      | Some (Panicked s') \<Rightarrow> Some (Panicked s')
      | Some (Ret repo s1) \<Rightarrow>
          (let entityName = fullRepoName (Login org) (Name (Repository repo));
               missing = checkMissingPermissions repo entityName;
               s2 = issueMissingPermissions missing s1;
               s3 = collectData org repo (Url (Repository repo))
                      [OrgRole org, ViewerPermission (Repository repo)] s2
           in Some (Ret () (collectionChangeByOne s3))))"

text \<open>The unit spawned for each page: one unit per node, then the wait.\<close>

fun processNodes ::
  "'w Client \<Rightarrow> ExtendedOrg \<Rightarrow> GitHubQLRepository list \<Rightarrow> 'w state \<Rightarrow> 'w state option" where
  "processNodes rc org [] s = Some s"
| "processNodes rc org (node # nodes) s =
     (case gwDo (processItem rc org node) s of
        None \<Rightarrow> None
      | Some s' \<Rightarrow> processNodes rc org nodes s')"

text \<open>The loop of \<open>collectRepositories\<close>, from the cursor held in \<open>variables\<close>.\<close>

partial_function (option) collectRepositoriesFrom ::
  "'w Client \<Rightarrow> ExtendedOrg \<Rightarrow> string option \<Rightarrow> 'w state \<Rightarrow> (error option \<times> 'w state) option" where
  "collectRepositoriesFrom rc org repositoryCursor s =
     (case netCall (QueryRepositories rc (Login org) repositoryCursor)
             (CallQueryRepositories (Login org) repositoryCursor) s of
        (Inl err, s1) \<Rightarrow> Some (Some err, s1)
      | (Inr query, s1) \<Rightarrow>
          (case gwDo (returning (processNodes rc org (Nodes query))) s1 of
             None \<Rightarrow> None
           | Some s2 \<Rightarrow>
               (if \<not> HasNextPage (PageInfo query) then Some (None, s2)
                else collectRepositoriesFrom rc org (Some (EndCursor (PageInfo query))) s2)))"

declare collectRepositoriesFrom.simps [code]

definition collectRepositories ::
  "'w Client \<Rightarrow> ExtendedOrg \<Rightarrow> 'w state \<Rightarrow> (error option \<times> 'w state) option" where
  "collectRepositories rc org s = collectRepositoriesFrom rc org None s"

subsection \<open>Retry and the two entry points\<close>

text \<open>Modelled from the spec: \<open>utils.Retry\<close> is not in the sources. Given an operation
  that returns (success-flag, error) and a maximum attempt count, it re-invokes the
  operation until it signals success or the attempts are exhausted, and surfaces
  the last error if exhausted. An attempt signals success when it returns the flag
  and no error. The label is for diagnostics: the surfaced error is logged with it.\<close>

fun retryAttempts ::
  "('s \<Rightarrow> ((bool \<times> error option) \<times> 's) option) \<Rightarrow> nat \<Rightarrow> error option \<Rightarrow> 's
     \<Rightarrow> (error option \<times> 's) option" where
  "retryAttempts operation 0 lastErr s = Some (lastErr, s)"
| "retryAttempts operation (Suc n) lastErr s =
     (case operation s of
        None \<Rightarrow> None
      | Some ((ok, err), s') \<Rightarrow>
          (if ok \<and> err = None then Some (None, s')
           else retryAttempts operation n err s'))"

definition Retry ::
  "('w state \<Rightarrow> ((bool \<times> error option) \<times> 'w state) option) \<Rightarrow> nat \<Rightarrow> string \<Rightarrow> 'w state
     \<Rightarrow> (error option \<times> 'w state) option" where
  "Retry operation maxAttempts description s =
     (case retryAttempts operation maxAttempts None s of
        None \<Rightarrow> None
      | Some (err, s') \<Rightarrow> Some (err, logIfErr err ''%s: %s'' [ArgStr description] s'))"

text \<open>The unit spawned for each organization: the operation handed to \<open>Retry\<close>
  returns \<open>true\<close> and the error of the traversal, and the error that \<open>Retry\<close>
  surfaces is discarded.\<close>

definition collectOrg :: "'w Client \<Rightarrow> ExtendedOrg \<Rightarrow> 'w state \<Rightarrow> 'w state option" where
  "collectOrg rc localOrg s =
     (case Retry (\<lambda>s. case collectRepositories rc localOrg s of
                         None \<Rightarrow> None
                       | Some (err, s') \<Rightarrow> Some ((True, err), s'))
             5 (''collect repositories for '' @ Login localOrg) s of
        None \<Rightarrow> None
      | Some (_, s') \<Rightarrow> Some s')"

fun collectOrgs :: "'w Client \<Rightarrow> ExtendedOrg list \<Rightarrow> 'w state \<Rightarrow> 'w state option" where
  "collectOrgs rc [] s = Some s"
| "collectOrgs rc (org # orgs) s =
     (case gwDo (returning (collectOrg rc org)) s of
        None \<Rightarrow> None
      | Some s' \<Rightarrow> collectOrgs rc orgs s')"

text \<open>Modelled from the spec: \<open>wrappedCollection\<close> is a method of the base collector,
  which is not in the sources. It runs the collection and hands out what the
  collection emitted: the result of \<open>Collect\<close> is the state the collection leaves.\<close>

definition Collect :: "'w Client \<Rightarrow> 'w state \<Rightarrow> 'w state option" where
  "Collect rc s =
     (case netCall (CollectOrganizations rc) (\<lambda>_. CallCollectOrganizations) s of
        (Inl err, s1) \<Rightarrow> Some (logPrintf ''failed to collect organizations %s'' [ArgErr err] s1)
      | (Inr orgs, s1) \<Rightarrow> collectOrgs rc orgs (totalCollectionChange 0 s1))"

record Metadata =
  TotalEntities :: int

text \<open>The units of \<open>CollectMetadata\<close>. Modelled from the spec: the group waiter is
  not in the sources; \<open>Do\<close> enqueues a unit for concurrent execution and \<open>Wait\<close>
  blocks until all of them have returned. Here the units share a variable of the
  function that spawns them: \<open>totalCount\<close>, a plain \<open>int32\<close> that each closure
  captures. A unit queries the count of its organization and returns if the query
  fails; otherwise it does \<open>totalCount += n\<close>, which is a load of \<open>totalCount\<close> and,
  later, a store of the sum. A unit is at its query, before its load (holding the
  count), before its store (holding the sum), or finished.\<close>

datatype countUnit = AtQuery string | AtLoad "32 word" | AtStore "32 word" | Finished

record 'w counting =
  units :: "countUnit list"
  totalCount :: "32 word"
  collector :: "'w state"

text \<open>One step of the \<open>i\<close>-th unit.\<close>

definition stepUnit :: "'w Client \<Rightarrow> nat \<Rightarrow> 'w counting \<Rightarrow> 'w counting" where
  "stepUnit rc i c =
     (if i < length (units c)
      then (case units c ! i of
              AtQuery login \<Rightarrow>
                (case netCall (QueryTotalCount rc login) (CallQueryTotalCount login) (collector c) of
                   (Inl e, s') \<Rightarrow> c\<lparr>units := (units c)[i := Finished], collector := s'\<rparr>
                 | (Inr n, s') \<Rightarrow> c\<lparr>units := (units c)[i := AtLoad n], collector := s'\<rparr>)
            | AtLoad n \<Rightarrow> c\<lparr>units := (units c)[i := AtStore (totalCount c + n)]\<rparr>
            | AtStore v \<Rightarrow> c\<lparr>units := (units c)[i := Finished], totalCount := v\<rparr>
            | Finished \<Rightarrow> c)
      else c)"

text \<open>A schedule names, step by step, the unit that runs next.\<close>

fun runSchedule :: "'w Client \<Rightarrow> nat list \<Rightarrow> 'w counting \<Rightarrow> 'w counting" where
  "runSchedule rc [] c = c"
| "runSchedule rc (i # schedule) c = runSchedule rc schedule (stepUnit rc i c)"

text \<open>\<open>gw.Wait()\<close>: every unit that has not finished runs to its end (three steps
  finish any unit).\<close>

definition gwWait :: "'w Client \<Rightarrow> 'w counting \<Rightarrow> 'w counting" where
  "gwWait rc c = runSchedule rc (concat (map (\<lambda>i. [i, i, i]) [0..<length (units c)])) c"

text \<open>\<open>CollectMetadata\<close>, under the schedule that the units follow until the wait.
  With the empty schedule the units run one after the other, in the order they
  were spawned.\<close>

definition CollectMetadata :: "'w Client \<Rightarrow> nat list \<Rightarrow> 'w state \<Rightarrow> Metadata \<times> 'w state" where
  "CollectMetadata rc schedule s =
     (case netCall (CollectOrganizations rc) (\<lambda>_. CallCollectOrganizations) s of
        (Inl err, s1) \<Rightarrow>
          (\<lparr>TotalEntities = 0\<rparr>, logPrintf ''failed to collect organization %s'' [ArgErr err] s1)
      | (Inr orgs, s1) \<Rightarrow>
          (let spawned = \<lparr>units = map (\<lambda>org. AtQuery (Login org)) orgs, totalCount = 0,
                           collector = s1\<rparr>;
               waited = gwWait rc (runSchedule rc schedule spawned)
           in (\<lparr>TotalEntities = sint (totalCount waited)\<rparr>, collector waited)))"

subsection \<open>Notions used to state the properties\<close>

fun outcomeState :: "('a, 's) outcome \<Rightarrow> 's" where
  "outcomeState (Ret _ s) = s"
| "outcomeState (Panicked s) = s"

text \<open>From \<open>s\<close> to \<open>s'\<close> the trace, the missing-permission records and the emitted
  entities have only grown, by calls, records and entities of the given kinds.\<close>

definition extends ::
  "(apiCall \<Rightarrow> bool) \<Rightarrow> (missingPermission \<Rightarrow> bool) \<Rightarrow> (collectedData \<Rightarrow> bool)
     \<Rightarrow> 'w state \<Rightarrow> 'w state \<Rightarrow> bool" where
  "extends P Q R s s' =
     ((\<exists>cs. calls s' = calls s @ cs \<and> list_all P cs) \<and>
      (\<exists>ps. missingPermissions s' = missingPermissions s @ ps \<and> list_all Q ps) \<and>
      (\<exists>es. collected s' = collected s @ es \<and> list_all R es))"

definition hookPerm :: "string \<Rightarrow> string \<Rightarrow> missingPermission" where
  "hookPerm org name =
     newMissingPermission RepoHookRead (fullRepoName org name)
       ''Cannot read repository webhooks'' NamespaceRepository"

fun isListHooks :: "apiCall \<Rightarrow> bool" where
  "isListHooks (CallListHooks _ _ _) = True"
| "isListHooks _ = False"

fun isBranchProtectionCall :: "apiCall \<Rightarrow> bool" where
  "isBranchProtectionCall (CallGetBranchProtection _ _ _) = True"
| "isBranchProtectionCall _ = False"

fun isRepositoriesQuery :: "apiCall \<Rightarrow> bool" where
  "isRepositoriesQuery (CallQueryRepositories _ _ _) = True"
| "isRepositoriesQuery _ = False"

text \<open>The REST and scorecard calls of the enrichment stages.\<close>

fun isEnrichmentCall :: "apiCall \<Rightarrow> bool" where
  "isEnrichmentCall (CallGetVulnerabilityAlerts _ _) = True"
| "isEnrichmentCall (CallListHooks _ _ _) = True"
| "isEnrichmentCall (CallListCollaborators _ _) = True"
| "isEnrichmentCall (CallGetBranchProtection _ _ _) = True"
| "isEnrichmentCall (CallScorecard _ _) = True"
| "isEnrichmentCall _ = False"

text \<open>The calls of a traversal: repository queries and enrichment calls.\<close>

definition isTraversalCall :: "apiCall \<Rightarrow> bool" where
  "isTraversalCall c = (isEnrichmentCall c \<or> isRepositoriesQuery c)"

text \<open>The counts that the successful count queries of a trace returned, and the
  count units run one after the other, each from its query to its store.\<close>

fun countInOrder :: "'w Client \<Rightarrow> string list \<Rightarrow> 32 word \<Rightarrow> 'w state \<Rightarrow> 32 word \<times> 'w state" where
  "countInOrder rc [] tot s = (tot, s)"
| "countInOrder rc (login # logins) tot s =
     (case netCall (QueryTotalCount rc login) (CallQueryTotalCount login) s of
        (Inl e, s') \<Rightarrow> countInOrder rc logins tot s'
      | (Inr n, s') \<Rightarrow> countInOrder rc logins (tot + n) s')"

fun countsOf :: "apiCall list \<Rightarrow> 32 word list" where
  "countsOf [] = []"
| "countsOf (CallQueryTotalCount _ (Inr n) # cs) = n # countsOf cs"
| "countsOf (_ # cs) = countsOf cs"

text \<open>The stages of \<open>collectExtraData\<close> that come before the branch-protection stage:
  the repository and the state with which that stage is entered.\<close>

definition earlyStages ::
  "'w Client \<Rightarrow> ExtendedOrg \<Rightarrow> GitHubQLRepository \<Rightarrow> 'w state
     \<Rightarrow> (Repository, 'w state) outcome option" where
  "earlyStages rc org repository s =
     (let login = Login org in
      case getVulnerabilityAlerts rc (newRepository repository) login s of
        (repo1, err1, s1) \<Rightarrow>
          (case getRepositoryHooks rc repo1 login
                  (logIfErr err1 ''error getting vulnerability alerts for %s: %s''
                     [ArgStr (fullRepoName login (Name (Repository repo1)))] s1) of
             None \<Rightarrow> None
           | Some (Panicked s2) \<Rightarrow> Some (Panicked s2)
           | Some (Ret (repo2, err2) s2) \<Rightarrow>
               (case getRepoCollaborators rc repo2 login
                       (logIfErr err2 ''error getting repository hooks for %s: %s''
                          [ArgStr (fullRepoName login (Name (Repository repo2)))] s2) of
                  (repo3, err3, s3) \<Rightarrow>
                    Some (Ret repo3
                      (logIfErr err3 ''error getting repository collaborators for %s: %s''
                         [ArgStr (fullRepoName login (Name (Repository repo3)))] s3)))))"

text \<open>A deterministic transport: the answer to a repository query depends on the
  login and the cursor only.\<close>

definition deterministicPages ::
  "'w Client \<Rightarrow> (string \<Rightarrow> string option \<Rightarrow> error + repoQuery) \<Rightarrow> bool" where
  "deterministicPages rc pageOf =
     (\<forall>login cursor w. fst (QueryRepositories rc login cursor w) = pageOf login cursor)"

text \<open>Every item's unit completes: its REST pagination ends and no call fails
  without a response.\<close>

definition itemsComplete :: "'w Client \<Rightarrow> ExtendedOrg \<Rightarrow> bool" where
  "itemsComplete rc org = (\<forall>node s. \<exists>s'. processItem rc org node s = Some (Ret () s'))"

text \<open>The spec's traversal: the pages visited from a cursor, each page's end cursor
  feeding the next query while has-more is true, up to the first transport error;
  \<open>None\<close> when has-more is still true after \<open>n\<close> pages.\<close>

fun pagesVisited ::
  "(string option \<Rightarrow> error + repoQuery) \<Rightarrow> nat \<Rightarrow> string option
     \<Rightarrow> (repoQuery list \<times> error option) option" where
  "pagesVisited pageOf 0 cursor = None"
| "pagesVisited pageOf (Suc n) cursor =
     (case pageOf cursor of
        Inl err \<Rightarrow> Some ([], Some err)
      | Inr query \<Rightarrow>
          (if \<not> HasNextPage (PageInfo query) then Some ([query], None)
           else (case pagesVisited pageOf n (Some (EndCursor (PageInfo query))) of
                   None \<Rightarrow> None
                 | Some (pages, err) \<Rightarrow> Some (query # pages, err))))"

text \<open>The queries of such a traversal, as the trace records them.\<close>

fun expectedQueries :: "string \<Rightarrow> string option \<Rightarrow> repoQuery list \<Rightarrow> error option \<Rightarrow> apiCall list" where
  "expectedQueries login cursor [] None = []"
| "expectedQueries login cursor [] (Some err) = [CallQueryRepositories login cursor (Inl err)]"
| "expectedQueries login cursor (query # pages) err =
     CallQueryRepositories login cursor (Inr query)
       # expectedQueries login (Some (EndCursor (PageInfo query))) pages err"


subsection \<open>Concrete platforms\<close>

definition emptyState :: "nat state" where
  "emptyState =
     \<lparr>world = 0, missingPermissions = [], collected = [], totalEntities = 0, processed = 0,
      logs = [], calls = []\<rparr>"

definition acme :: ExtendedOrg where
  "acme = \<lparr>Login = ''acme'', OrgRole = ''owner'', IsFree = True\<rparr>"

definition globex :: ExtendedOrg where
  "globex = \<lparr>Login = ''globex'', OrgRole = ''member'', IsFree = False\<rparr>"

definition privateRepo :: GitHubQLRepository where
  "privateRepo =
     \<lparr>Name = ''vault'', Url = ''https://example.test/vault'', IsPrivate = True,
      ViewerPermission = ''ADMIN'', DefaultBranchRef = Some \<lparr>RefName = ''main'', BranchProtectionRule = None\<rparr>\<rparr>"

definition publicRepo :: GitHubQLRepository where
  "publicRepo =
     \<lparr>Name = ''site'', Url = ''https://example.test/site'', IsPrivate = False,
      ViewerPermission = ''WRITE'', DefaultBranchRef = Some \<lparr>RefName = ''main'', BranchProtectionRule = None\<rparr>\<rparr>"

definition lastPage :: "GitHubQLRepository list \<Rightarrow> repoQuery" where
  "lastPage nodes = \<lparr>PageInfo = \<lparr>HasNextPage = False, EndCursor = ''''\<rparr>, Nodes = nodes\<rparr>"

definition morePage :: "string \<Rightarrow> GitHubQLRepository list \<Rightarrow> repoQuery" where
  "morePage cursor nodes = \<lparr>PageInfo = \<lparr>HasNextPage = True, EndCursor = cursor\<rparr>, Nodes = nodes\<rparr>"

text \<open>A platform that answers every call: two organizations, one page of one
  repository for each, unprotected branches. The world counts the repository
  queries.\<close>

definition platform :: "nat Client" where
  "platform =
     \<lparr>CollectOrganizations = (\<lambda>w. (Inr [acme, globex], w)),
      QueryTotalCount = (\<lambda>login w. (Inr 1, w)),
      QueryRepositories = (\<lambda>login cursor w. (Inr (lastPage [publicRepo]), Suc w)),
      GetVulnerabilityAlerts = (\<lambda>org name w. (Inr True, w)),
      ListHooks = (\<lambda>org name page w. (HooksOk [''hook''] \<lparr>StatusCode = 200, NextPage = 0\<rparr>, w)),
      ListCollaborators = (\<lambda>org name w. (Inr (Some [''alice'']), w)),
      GetBranchProtection = (\<lambda>org name branch w. (Inl ErrBranchNotProtected, w)),
      ScorecardCalculate = (\<lambda>url private w. (Inr ''7.5'', w)),
      scorecardEnabled = False\<rparr>"

definition platformProtected :: "nat Client" where
  "platformProtected =
     platform\<lparr>GetBranchProtection := (\<lambda>org name branch w. (Inr ''require reviews'', w))\<rparr>"

definition platformNoPermission :: "nat Client" where
  "platformNoPermission =
     platform\<lparr>GetBranchProtection := (\<lambda>org name branch w. (Inl (ErrorResponse ''Not Found''), w))\<rparr>"


text \<open>A platform where the count query of \<open>acme\<close> fails and \<open>globex\<close> has seven
  repositories, and one where the discovery of the organizations fails.\<close>

definition platformCountFails :: "nat Client" where
  "platformCountFails =
     platform\<lparr>QueryTotalCount :=
       (\<lambda>login w. (if login = ''acme'' then Inl (OtherError ''timeout'') else Inr 7, w))\<rparr>"

definition platformNoOrganizations :: "nat Client" where
  "platformNoOrganizations =
     platform\<lparr>CollectOrganizations := (\<lambda>w. (Inl (OtherError ''bad credentials''), w))\<rparr>"




definition platformDown :: "nat Client" where
  "platformDown =
     platform\<lparr>QueryRepositories := (\<lambda>login cursor w. (Inl (OtherError ''502''), Suc w))\<rparr>"





text \<open>A platform with two pages of one repository for every organization, and the
  function that gives its pages.\<close>

definition twoPages :: "string \<Rightarrow> string option \<Rightarrow> error + repoQuery" where
  "twoPages login cursor =
     (case cursor of
        None \<Rightarrow> Inr (morePage ''c1'' [publicRepo])
      | Some c \<Rightarrow> Inr (lastPage [privateRepo]))"

definition platformTwoPages :: "nat Client" where
  "platformTwoPages =
     platform\<lparr>QueryRepositories := (\<lambda>login cursor w. (twoPages login cursor, Suc w))\<rparr>"

text \<open>A platform whose webhook listing fails before any response arrives (a
  transport error: the call returns no response with the error).\<close>

definition platformHooksUnreachable :: "nat Client" where
  "platformHooksUnreachable =
     platform\<lparr>ListHooks :=
       (\<lambda>org name page w. (HooksErr None (OtherError ''connection reset''), w))\<rparr>"

text \<open>The state in which the traversal of \<open>acme\<close> leaves that platform.\<close>

definition hooksUnreachableRun :: "nat state" where
  "hooksUnreachableRun =
     \<lparr>world = 1, missingPermissions = [], collected = [], totalEntities = 0, processed = 0,
      logs = [],
      calls = [CallQueryRepositories ''acme'' None (Inr (lastPage [publicRepo])),
               CallGetVulnerabilityAlerts ''acme'' ''site'', CallListHooks ''acme'' ''site'' 0]\<rparr>"

text \<open>The pages of \<open>platformHooksUnreachable\<close>: one page of one repository for every
  organization.\<close>

definition onePage :: "string \<Rightarrow> string option \<Rightarrow> error + repoQuery" where
  "onePage login cursor = Inr (lastPage [publicRepo])"

text \<open>The repository \<open>publicRepo\<close> of \<open>acme\<close> as it enters the branch-protection stage
  on \<open>platformNoPermission\<close>, and the state it enters with.\<close>

definition siteEnriched :: Repository where
  "siteEnriched =
     \<lparr>Repository = publicRepo, VulnerabilityAlertsEnabled = Some True,
      Hooks = Some [''hook''], Collaborators = Some [''alice''],
      NoBranchProtectionPermission = False, Scorecard = None\<rparr>"

definition siteEnrichedState :: "nat state" where
  "siteEnrichedState =
     \<lparr>world = 0, missingPermissions = [], collected = [], totalEntities = 0, processed = 0,
      logs = [],
      calls = [CallGetVulnerabilityAlerts ''acme'' ''site'', CallListHooks ''acme'' ''site'' 0,
               CallListCollaborators ''acme'' ''site'']\<rparr>"

section \<open>Properties\<close>

subsection \<open>Growth of the state\<close>

lemma extends_refl: "extends P Q R s s"
  by (simp add: extends_def)

lemma extends_trans: "extends P Q R s s' \<Longrightarrow> extends P Q R s' s'' \<Longrightarrow> extends P Q R s s''"
  unfolding extends_def by (elim conjE exE) simp

lemma extends_mono:
  "extends P Q R s s' \<Longrightarrow> (\<And>c. P c \<Longrightarrow> P' c) \<Longrightarrow> (\<And>p. Q p \<Longrightarrow> Q' p) \<Longrightarrow> (\<And>e. R e \<Longrightarrow> R' e)
     \<Longrightarrow> extends P' Q' R' s s'"
  unfolding extends_def list_all_iff by (elim conjE exE) auto

lemma extends_log: "extends P Q R s (logPrintf fmt args s)"
  by (simp add: extends_def logPrintf_def)

lemma extends_logIfErr: "extends P Q R s (logIfErr err fmt args s)"
  by (simp add: logIfErr_def extends_log extends_refl split: option.splits)

lemma extends_netCall:
  "netCall f tag s = (r, s') \<Longrightarrow> P (tag r) \<Longrightarrow> extends P Q R s s'"
  by (auto simp: netCall_def extends_def split: prod.splits)

lemma extends_issue:
  "list_all Q perms \<Longrightarrow> extends P Q R s (issueMissingPermissions perms s)"
  by (simp add: extends_def issueMissingPermissions_def)

lemma extends_logged:
  "extends P Q R s s' \<Longrightarrow> extends P Q R s (logIfErr err fmt args s')"
  by (blast intro: extends_trans extends_logIfErr)

subsection \<open>The enrichment stages, one by one\<close>

lemma getVulnerabilityAlerts_extends:
  "getVulnerabilityAlerts rc repo org s = (repo', err, s') \<Longrightarrow>
   extends (\<lambda>c. c = CallGetVulnerabilityAlerts org (Name (Repository repo))) (\<lambda>_. False) (\<lambda>_. False) s s'"
  unfolding getVulnerabilityAlerts_def
  by (auto split: prod.splits sum.splits elim!: extends_netCall)

lemma getVulnerabilityAlerts_repo:
  "getVulnerabilityAlerts rc repo org s = (repo', err, s') \<Longrightarrow>
   (case err of Some e \<Rightarrow> repo' = repo
    | None \<Rightarrow> \<exists>enabled. repo' = repo\<lparr>VulnerabilityAlertsEnabled := Some enabled\<rparr>)"
  unfolding getVulnerabilityAlerts_def
  by (auto split: prod.splits sum.splits)

lemma getRepoCollaborators_extends:
  "getRepoCollaborators rc repo org s = (repo', err, s') \<Longrightarrow>
   extends (\<lambda>c. c = CallListCollaborators org (Name (Repository repo))) (\<lambda>_. False) (\<lambda>_. False) s s'"
  unfolding getRepoCollaborators_def
  by (auto split: prod.splits sum.splits elim!: extends_netCall)

lemma getRepoCollaborators_repo:
  "getRepoCollaborators rc repo org s = (repo', err, s') \<Longrightarrow>
   (case err of Some e \<Rightarrow> repo' = repo
    | None \<Rightarrow> \<exists>users. repo' = repo\<lparr>Collaborators := users\<rparr>)"
  unfolding getRepoCollaborators_def
  by (auto split: prod.splits sum.splits)

lemma listHooksPage_extends:
  "extends isListHooks (\<lambda>p. p = hookPerm org (Name (Repository repo))) (\<lambda>_. False)
     (snd h) (snd (outcomeState (listHooksPage rc repo org page h)))"
  unfolding listHooksPage_def
  apply (cases h)
  apply (simp split: prod.splits hooksReply.splits option.splits)
  apply (auto elim!: extends_netCall intro!: extends_trans[OF extends_netCall extends_issue]
              simp: hookPerm_def)
  done

lemma PaginateResults_extends:
  assumes run: "PaginateResults f page h = Some out"
    and step: "\<And>page h. extends P Q R (snd h) (snd (outcomeState (f page h)))"
  shows "extends P Q R (snd h) (snd (outcomeState out))"
proof -
  have "f = f \<longrightarrow> extends P Q R (snd h) (snd (outcomeState out))"
  proof (rule PaginateResults.raw_induct
      [where P = "\<lambda>g page h out. g = f \<longrightarrow> extends P Q R (snd h) (snd (outcomeState out))",
        OF _ run])
    fix rec g page h out
    assume IH: "\<And>g page h out. rec g page h = Some out \<Longrightarrow>
                  g = f \<longrightarrow> extends P Q R (snd h) (snd (outcomeState out))"
      and body: "(case g page h of
                    Ret (None, None) h' \<Rightarrow> Some (Panicked h')
                  | Ret (None, Some err) h' \<Rightarrow> Some (Ret (Some err) h')
                  | Ret (Some a, None) h' \<Rightarrow>
                      if NextPage a = 0 then Some (Ret None h') else rec g (NextPage a) h'
                  | Ret (Some a, Some err) h' \<Rightarrow> Some (Ret (Some err) h')
                  | Panicked h' \<Rightarrow> Some (Panicked h')) = Some out"
    show "g = f \<longrightarrow> extends P Q R (snd h) (snd (outcomeState out))"
    proof
      assume g: "g = f"
      have one: "extends P Q R (snd h) (snd (outcomeState (f page h)))" by (rule step)
      show "extends P Q R (snd h) (snd (outcomeState out))"
      proof (cases "f page h")
        case (Panicked h')
        with body g one show ?thesis by auto
      next
        case (Ret v h')
        obtain resp err where v: "v = (resp, err)" by (cases v)
        show ?thesis
        proof (cases err)
          case (Some e)
          with body g one Ret v show ?thesis by (cases resp) auto
        next
          case None
          show ?thesis
          proof (cases resp)
            case None
            with body g one Ret v \<open>err = None\<close> show ?thesis by auto
          next
            case (Some a)
            show ?thesis
            proof (cases "NextPage a = 0")
              case True
              with body g one Ret v \<open>err = None\<close> Some show ?thesis by auto
            next
              case False
              with body g Ret v \<open>err = None\<close> Some
              have "rec f (NextPage a) h' = Some out" by simp
              from IH[OF this] have "extends P Q R (snd h') (snd (outcomeState out))" by simp
              moreover from one Ret have "extends P Q R (snd h) (snd h')" by simp
              ultimately show ?thesis by (blast intro: extends_trans)
            qed
          qed
        qed
      qed
    qed
  qed
  then show ?thesis by simp
qed

lemma getRepositoryHooks_extends:
  assumes "getRepositoryHooks rc repo org s = Some out"
  shows "extends isListHooks (\<lambda>p. p = hookPerm org (Name (Repository repo))) (\<lambda>_. False)
           s (outcomeState out)"
proof -
  from assms obtain pout where
    p: "PaginateResults (listHooksPage rc repo org) 0 (None, s) = Some pout"
    and st: "outcomeState out = snd (outcomeState pout)"
    unfolding getRepositoryHooks_def
    by (auto split: option.splits outcome.splits prod.splits)
  from PaginateResults_extends[OF p listHooksPage_extends] st show ?thesis by simp
qed

lemma getRepositoryHooks_repo:
  "getRepositoryHooks rc repo org s = Some (Ret (repo', err) s') \<Longrightarrow>
   (case err of Some e \<Rightarrow> repo' = repo | None \<Rightarrow> \<exists>hooks. repo' = repo\<lparr>Hooks := hooks\<rparr>)"
  unfolding getRepositoryHooks_def
  by (auto split: option.splits outcome.splits prod.splits)

lemma fixBranchProtectionInfo_extends:
  "fixBranchProtectionInfo rc repo org s = (repo', err, s') \<Longrightarrow>
   extends isBranchProtectionCall (\<lambda>_. False) (\<lambda>_. False) s s'"
  unfolding fixBranchProtectionInfo_def
  by (auto split: prod.splits sum.splits option.splits if_splits
           intro: extends_refl extends_trans[OF extends_netCall extends_log] elim!: extends_netCall)

lemma fixBranchProtectionInfo_repo:
  "fixBranchProtectionInfo rc repo org s = (repo', err, s') \<Longrightarrow>
   repo' = repo \<or> (repo' = repo\<lparr>NoBranchProtectionPermission := True\<rparr> \<and> err = None)"
  unfolding fixBranchProtectionInfo_def
  by (auto split: prod.splits sum.splits option.splits if_splits)

lemma branchProtectionStage_extends:
  "branchProtectionStage rc org node repo login s = (repo', s') \<Longrightarrow>
   extends isBranchProtectionCall (\<lambda>p. Permission p = RepoAdmin) (\<lambda>_. False) s s'"
  unfolding branchProtectionStage_def
  by (auto split: prod.splits if_splits simp: newMissingPermission_def
           intro!: extends_issue extends_logged
           dest!: fixBranchProtectionInfo_extends elim: extends_mono)

lemma branchProtectionStage_repo:
  "branchProtectionStage rc org node repo login s = (repo', s') \<Longrightarrow>
   Repository repo' = Repository repo"
  unfolding branchProtectionStage_def
  by (auto split: prod.splits if_splits dest!: fixBranchProtectionInfo_repo)

lemma scorecardStage_extends:
  "scorecardStage rc node repo s = (repo', s') \<Longrightarrow>
   extends (\<lambda>c. c = CallScorecard (Url node) (IsPrivate (Repository repo))) (\<lambda>_. False) (\<lambda>_. False) s s'"
  unfolding scorecardStage_def
  by (auto split: prod.splits sum.splits if_splits
           intro: extends_refl extends_trans[OF extends_netCall extends_log] elim!: extends_netCall)

lemma scorecardStage_repo:
  "scorecardStage rc node repo s = (repo', s') \<Longrightarrow> \<exists>sc. repo' = repo\<lparr>Scorecard := sc\<rparr>"
  unfolding scorecardStage_def
  by (auto split: prod.splits sum.splits if_splits intro: exI[of _ "Scorecard repo"])

subsection \<open>The enrichment pipeline\<close>

lemma collectExtraData_RetE:
  assumes "collectExtraData rc org node s = Some (Ret repo s')"
  obtains repo1 err1 s1 f1 a1 repo2 err2 s2 f2 a2 repo3 err3 s3 f3 a3 repo4 s4 where
    "getVulnerabilityAlerts rc (newRepository node) (Login org) s = (repo1, err1, s1)"
    "getRepositoryHooks rc repo1 (Login org) (logIfErr err1 f1 a1 s1) = Some (Ret (repo2, err2) s2)"
    "getRepoCollaborators rc repo2 (Login org) (logIfErr err2 f2 a2 s2) = (repo3, err3, s3)"
    "branchProtectionStage rc org node repo3 (Login org) (logIfErr err3 f3 a3 s3) = (repo4, s4)"
    "scorecardStage rc node repo4 s4 = (repo, s')"
  using assms unfolding collectExtraData_def Let_def
  by (auto split: prod.splits option.splits outcome.splits)

lemma collectExtraData_PanickedE:
  assumes "collectExtraData rc org node s = Some (Panicked s')"
  obtains repo1 err1 s1 f1 a1 where
    "getVulnerabilityAlerts rc (newRepository node) (Login org) s = (repo1, err1, s1)"
    "getRepositoryHooks rc repo1 (Login org) (logIfErr err1 f1 a1 s1) = Some (Panicked s')"
  using assms unfolding collectExtraData_def Let_def
  by (auto split: prod.splits option.splits outcome.splits)

lemma isEnrichmentCall_weaken:
  "c = CallGetVulnerabilityAlerts a b \<Longrightarrow> isEnrichmentCall c"
  "c = CallListCollaborators a b \<Longrightarrow> isEnrichmentCall c"
  "c = CallScorecard u p \<Longrightarrow> isEnrichmentCall c"
  "isListHooks c \<Longrightarrow> isEnrichmentCall c"
  "isBranchProtectionCall c \<Longrightarrow> isEnrichmentCall c"
  by (cases c; simp)+

lemma collectExtraData_extends:
  assumes "collectExtraData rc org node s = Some out"
  shows "extends isEnrichmentCall (\<lambda>_. True) (\<lambda>_. False) s (outcomeState out)"
proof (cases out)
  case (Ret repo s')
  with assms have "collectExtraData rc org node s = Some (Ret repo s')" by simp
  then obtain repo1 err1 s1 f1 a1 repo2 err2 s2 f2 a2 repo3 err3 s3 f3 a3 repo4 s4 where
    v: "getVulnerabilityAlerts rc (newRepository node) (Login org) s = (repo1, err1, s1)" and
    h: "getRepositoryHooks rc repo1 (Login org) (logIfErr err1 f1 a1 s1) = Some (Ret (repo2, err2) s2)" and
    c: "getRepoCollaborators rc repo2 (Login org) (logIfErr err2 f2 a2 s2) = (repo3, err3, s3)" and
    b: "branchProtectionStage rc org node repo3 (Login org) (logIfErr err3 f3 a3 s3) = (repo4, s4)" and
    sc: "scorecardStage rc node repo4 s4 = (repo, s')"
    by (rule collectExtraData_RetE)
  let ?E = "extends isEnrichmentCall (\<lambda>_. True) (\<lambda>_. False)"
  have 1: "?E s (logIfErr err1 f1 a1 s1)"
    by (rule extends_logged, rule extends_mono[OF getVulnerabilityAlerts_extends[OF v]])
       (simp_all add: isEnrichmentCall_weaken)
  have 2: "?E (logIfErr err1 f1 a1 s1) (logIfErr err2 f2 a2 s2)"
    by (rule extends_logged, rule extends_mono[OF getRepositoryHooks_extends[OF h, simplified]])
       (simp_all add: isEnrichmentCall_weaken)
  have 3: "?E (logIfErr err2 f2 a2 s2) (logIfErr err3 f3 a3 s3)"
    by (rule extends_logged, rule extends_mono[OF getRepoCollaborators_extends[OF c]])
       (simp_all add: isEnrichmentCall_weaken)
  have 4: "?E (logIfErr err3 f3 a3 s3) s4"
    by (rule extends_mono[OF branchProtectionStage_extends[OF b]])
       (simp_all add: isEnrichmentCall_weaken)
  have 5: "?E s4 s'"
    by (rule extends_mono[OF scorecardStage_extends[OF sc]])
       (simp_all add: isEnrichmentCall_weaken)
  from extends_trans[OF 1 extends_trans[OF 2 extends_trans[OF 3 extends_trans[OF 4 5]]]] Ret
  show ?thesis by simp
next
  case (Panicked s')
  with assms have "collectExtraData rc org node s = Some (Panicked s')" by simp
  then obtain repo1 err1 s1 f1 a1 where
    v: "getVulnerabilityAlerts rc (newRepository node) (Login org) s = (repo1, err1, s1)" and
    h: "getRepositoryHooks rc repo1 (Login org) (logIfErr err1 f1 a1 s1) = Some (Panicked s')"
    by (rule collectExtraData_PanickedE)
  let ?E = "extends isEnrichmentCall (\<lambda>_. True) (\<lambda>_. False)"
  have 1: "?E s (logIfErr err1 f1 a1 s1)"
    by (rule extends_logged, rule extends_mono[OF getVulnerabilityAlerts_extends[OF v]])
       (simp_all add: isEnrichmentCall_weaken)
  have 2: "?E (logIfErr err1 f1 a1 s1) s'"
    by (rule extends_mono[OF getRepositoryHooks_extends[OF h, simplified]])
       (simp_all add: isEnrichmentCall_weaken)
  from extends_trans[OF 1 2] Panicked show ?thesis by simp
qed

lemma collectExtraData_node:
  assumes "collectExtraData rc org node s = Some (Ret repo s')"
  shows "Repository repo = node"
proof -
  from assms obtain repo1 err1 s1 f1 a1 repo2 err2 s2 f2 a2 repo3 err3 s3 f3 a3 repo4 s4 where
    v: "getVulnerabilityAlerts rc (newRepository node) (Login org) s = (repo1, err1, s1)" and
    h: "getRepositoryHooks rc repo1 (Login org) (logIfErr err1 f1 a1 s1) = Some (Ret (repo2, err2) s2)" and
    c: "getRepoCollaborators rc repo2 (Login org) (logIfErr err2 f2 a2 s2) = (repo3, err3, s3)" and
    b: "branchProtectionStage rc org node repo3 (Login org) (logIfErr err3 f3 a3 s3) = (repo4, s4)" and
    sc: "scorecardStage rc node repo4 s4 = (repo, s')"
    by (rule collectExtraData_RetE)
  from getVulnerabilityAlerts_repo[OF v] have 1: "Repository repo1 = node"
    by (auto simp: newRepository_def split: option.splits)
  from getRepositoryHooks_repo[OF h] have 2: "Repository repo2 = Repository repo1"
    by (auto split: option.splits)
  from getRepoCollaborators_repo[OF c] have 3: "Repository repo3 = Repository repo2"
    by (auto split: option.splits)
  from branchProtectionStage_repo[OF b] have 4: "Repository repo4 = Repository repo3" .
  from scorecardStage_repo[OF sc] have 5: "Repository repo = Repository repo4" by auto
  from 1 2 3 4 5 show ?thesis by simp
qed

subsection \<open>The unit of an item\<close>

lemma processItem_Ret:
  assumes "processItem rc org node s = Some (Ret u s')"
  shows "\<exists>repo s1. collectExtraData rc org node s = Some (Ret repo s1) \<and>
           collected s' = collected s1 @
             [\<lparr>CollectedOrg = org, CollectedEntity = repo, CanonicalLink = Url node,
               ViewerRoles = [OrgRole org, ViewerPermission node]\<rparr>] \<and>
           missingPermissions s' = missingPermissions s1 @
             checkMissingPermissions repo (fullRepoName (Login org) (Name node)) \<and>
           calls s' = calls s1 \<and> processed s' = Suc (processed s1)"
proof -
  from assms obtain repo s1 where
    e: "collectExtraData rc org node s = Some (Ret repo s1)"
    unfolding processItem_def by (auto split: option.splits outcome.splits)
  from collectExtraData_node[OF e] have n: "Repository repo = node" .
  from assms e n show ?thesis
    unfolding processItem_def
    by (auto simp add: Let_def collectionChangeByOne_def collectData_def issueMissingPermissions_def)
qed

lemma processItem_emits:
  assumes "processItem rc org node s = Some (Ret u s')"
  shows "\<exists>e. collected s' = collected s @ [e] \<and> Repository (CollectedEntity e) = node \<and>
           CollectedOrg e = org"
    and "\<exists>cs. calls s' = calls s @ cs \<and> list_all isEnrichmentCall cs"
    and "\<exists>ps. missingPermissions s' = missingPermissions s @ ps"
proof -
  from processItem_Ret[OF assms] obtain repo s1 where
    e: "collectExtraData rc org node s = Some (Ret repo s1)" and
    c: "collected s' = collected s1 @
             [\<lparr>CollectedOrg = org, CollectedEntity = repo, CanonicalLink = Url node,
               ViewerRoles = [OrgRole org, ViewerPermission node]\<rparr>]" and
    m: "missingPermissions s' = missingPermissions s1 @
             checkMissingPermissions repo (fullRepoName (Login org) (Name node))" and
    k: "calls s' = calls s1"
    by blast
  from collectExtraData_extends[OF e] have x: "extends isEnrichmentCall (\<lambda>_. True) (\<lambda>_. False) s s1"
    by simp
  from x have cs: "collected s1 = collected s"
    unfolding extends_def list_all_iff by (cases "collected s1 = collected s") auto
  from c cs collectExtraData_node[OF e]
  show "\<exists>e. collected s' = collected s @ [e] \<and> Repository (CollectedEntity e) = node \<and>
           CollectedOrg e = org" by simp
  from x k show "\<exists>cs. calls s' = calls s @ cs \<and> list_all isEnrichmentCall cs"
    unfolding extends_def by auto
  from x m show "\<exists>ps. missingPermissions s' = missingPermissions s @ ps"
    unfolding extends_def by auto
qed

lemma processItem_Panicked:
  assumes "processItem rc org node s = Some (Panicked s')"
  shows "collected s' = collected s"
    and "\<exists>cs. calls s' = calls s @ cs \<and> list_all isEnrichmentCall cs"
    and "\<exists>ps. missingPermissions s' = missingPermissions s @ ps"
proof -
  from assms have e: "collectExtraData rc org node s = Some (Panicked s')"
    unfolding processItem_def by (auto split: option.splits outcome.splits simp: Let_def)
  from collectExtraData_extends[OF e] have x: "extends isEnrichmentCall (\<lambda>_. True) (\<lambda>_. False) s s'"
    by simp
  from x show "collected s' = collected s"
    unfolding extends_def list_all_iff by (cases "collected s' = collected s") auto
  from x show "\<exists>cs. calls s' = calls s @ cs \<and> list_all isEnrichmentCall cs"
    unfolding extends_def by auto
  from x show "\<exists>ps. missingPermissions s' = missingPermissions s @ ps"
    unfolding extends_def by auto
qed

subsection \<open>The branch-protection fix-up\<close>


text \<open>
  Claim C10. In the branch-protection fix-up, when the repository has no default
  branch, or the structured query already supplied a branch-protection rule, or it
  supplied none but the direct REST call succeeds (inconsistent permissions), the
  repository is returned unchanged with no error: the permission-denied flag stays
  unset, \<open>checkMissingPermissions\<close> yields no record, nothing is recorded or
  emitted by the fix-up, and the rule that the successful REST call returned is not
  written into the repository. The repository comes in as \<open>collectExtraData\<close>
  builds it, with the flag unset.
\<close>

theorem fixBranchProtectionInfo_nothing_to_fix:
  assumes flag: "\<not> NoBranchProtectionPermission repository"
    and nofix:
      "DefaultBranchRef (Repository repository) = None
       \<or> (\<exists>ref rule. DefaultBranchRef (Repository repository) = Some ref \<and>
             BranchProtectionRule ref = Some rule)
       \<or> (\<exists>ref rule w. DefaultBranchRef (Repository repository) = Some ref \<and>
             BranchProtectionRule ref = None \<and>
             GetBranchProtection rc org (Name (Repository repository)) (RefName ref) (world s)
               = (Inr rule, w))"
  shows "\<exists>repository' s'.
           fixBranchProtectionInfo rc repository org s = (repository', None, s') \<and>
           repository' = repository \<and>
           \<not> NoBranchProtectionPermission repository' \<and>
           checkMissingPermissions repository' entityName = [] \<and>
           missingPermissions s' = missingPermissions s \<and>
           collected s' = collected s"
  using nofix
proof (elim disjE exE conjE)
  assume "DefaultBranchRef (Repository repository) = None"
  with flag show ?thesis
    by (simp add: fixBranchProtectionInfo_def checkMissingPermissions_def)
next
  fix ref rule
  assume "DefaultBranchRef (Repository repository) = Some ref" "BranchProtectionRule ref = Some rule"
  with flag show ?thesis
    by (simp add: fixBranchProtectionInfo_def checkMissingPermissions_def)
next
  fix ref rule w
  assume "DefaultBranchRef (Repository repository) = Some ref" "BranchProtectionRule ref = None"
    "GetBranchProtection rc org (Name (Repository repository)) (RefName ref) (world s) = (Inr rule, w)"
  with flag show ?thesis
    by (simp add: fixBranchProtectionInfo_def checkMissingPermissions_def netCall_def logPrintf_def)
qed

theorem fixBranchProtectionInfo_nothing_to_fix_witness:
  "\<not> NoBranchProtectionPermission (newRepository publicRepo) \<and>
   DefaultBranchRef (Repository (newRepository publicRepo))
     = Some \<lparr>RefName = ''main'', BranchProtectionRule = None\<rparr> \<and>
   GetBranchProtection platformProtected ''acme'' ''site'' ''main'' (world emptyState)
     = (Inr ''require reviews'', 0) \<and>
   (\<exists>s'. fixBranchProtectionInfo platformProtected (newRepository publicRepo) ''acme'' emptyState
           = (newRepository publicRepo, None, s') \<and>
         checkMissingPermissions (newRepository publicRepo) ''acme/site'' = [] \<and>
         missingPermissions s' = [] \<and> collected s' = [])"
proof -
  have flag: "\<not> NoBranchProtectionPermission (newRepository publicRepo)"
    by (simp add: newRepository_def)
  have ref: "DefaultBranchRef (Repository (newRepository publicRepo))
               = Some \<lparr>RefName = ''main'', BranchProtectionRule = None\<rparr>"
    by (simp add: newRepository_def publicRepo_def)
  have call: "GetBranchProtection platformProtected ''acme'' ''site'' ''main'' (world emptyState)
                = (Inr ''require reviews'', 0)"
    by (simp add: platformProtected_def platform_def emptyState_def)
  have name: "Name (Repository (newRepository publicRepo)) = ''site''"
    by (simp add: newRepository_def publicRepo_def)
  have "DefaultBranchRef (Repository (newRepository publicRepo)) = None
       \<or> (\<exists>ref rule. DefaultBranchRef (Repository (newRepository publicRepo)) = Some ref \<and>
             BranchProtectionRule ref = Some rule)
       \<or> (\<exists>ref rule w. DefaultBranchRef (Repository (newRepository publicRepo)) = Some ref \<and>
             BranchProtectionRule ref = None \<and>
             GetBranchProtection platformProtected ''acme'' (Name (Repository (newRepository publicRepo)))
               (RefName ref) (world emptyState) = (Inr rule, w))"
    using ref call name by simp
  from fixBranchProtectionInfo_nothing_to_fix[OF flag this, of "''acme/site''"] flag ref call
  show ?thesis by (auto simp: emptyState_def)
qed

text \<open>
  What the fix-up returns, and what \<open>checkMissingPermissions\<close> makes of it, when
  the lookup fails.
\<close>

lemma fixBranchProtectionInfo_lookup_failed:
  assumes flag: "\<not> NoBranchProtectionPermission repository"
    and ref: "DefaultBranchRef (Repository repository) = Some ref"
    and rule: "BranchProtectionRule ref = None"
    and lookup: "GetBranchProtection rc org (Name (Repository repository)) (RefName ref) (world s)
                   = (Inl err, w)"
  shows "\<exists>repository' err' s'.
           fixBranchProtectionInfo rc repository org s = (repository', err', s') \<and>
           missingPermissions s' = missingPermissions s \<and>
           DefaultBranchRef (Repository repository') = Some ref \<and>
           (err = ErrBranchNotProtected \<longrightarrow>
              repository' = repository \<and> err' = None \<and>
              checkMissingPermissions repository' entityName = []) \<and>
           (err = ErrorResponse ''Not Found'' \<longrightarrow>
              repository' = repository\<lparr>NoBranchProtectionPermission := True\<rparr> \<and> err' = None \<and>
              checkMissingPermissions repository' entityName =
                [\<lparr>Permission = RepoAdmin, Entity = entityName,
                  Effect = ''Cannot read repository branch protection information'',
                  MPNamespace = NamespaceRepository\<rparr>]) \<and>
           (err \<noteq> ErrBranchNotProtected \<and> err \<noteq> ErrorResponse ''Not Found'' \<longrightarrow>
              repository' = repository \<and> err' = Some err \<and>
              checkMissingPermissions repository' entityName = [])"
proof -
  have noperm: "isNoPermErr err \<longleftrightarrow> err = ErrorResponse ''Not Found''"
    by (cases err) (simp_all add: isNoPermErr_def)
  from flag ref rule lookup noperm show ?thesis
    by (simp add: fixBranchProtectionInfo_def checkMissingPermissions_def netCall_def
          newMissingPermission_def)
qed

subsection \<open>The free-plan skip\<close>



lemma extends_collected:
  "extends P Q (\<lambda>_. False) s s' \<Longrightarrow> collected s' = collected s"
  unfolding extends_def by (elim conjE exE) (case_tac es; simp)



lemma early_stages_flag:
  assumes v: "getVulnerabilityAlerts rc (newRepository node) login s = (repo1, err1, s1)"
    and h: "getRepositoryHooks rc repo1 login t1 = Some (Ret (repo2, err2) s2)"
    and c: "getRepoCollaborators rc repo2 login t2 = (repo3, err3, s3)"
  shows "Repository repo3 = node \<and> \<not> NoBranchProtectionPermission repo3"
proof -
  from getVulnerabilityAlerts_repo[OF v]
  have 1: "Repository repo1 = node \<and> \<not> NoBranchProtectionPermission repo1"
    by (auto simp: newRepository_def split: option.splits)
  from getRepositoryHooks_repo[OF h] 1
  have 2: "Repository repo2 = node \<and> \<not> NoBranchProtectionPermission repo2"
    by (auto split: option.splits)
  from getRepoCollaborators_repo[OF c] 2 show ?thesis
    by (auto split: option.splits)
qed





subsection \<open>A failed lookup, over the unit of the item\<close>


lemma collectExtraData_earlyStages:
  "collectExtraData rc org node s =
     (case earlyStages rc org node s of
        None \<Rightarrow> None
      | Some (Panicked s2) \<Rightarrow> Some (Panicked s2)
      | Some (Ret repo t) \<Rightarrow>
          (case branchProtectionStage rc org node repo (Login org) t of
             (repo4, s4) \<Rightarrow>
               (case scorecardStage rc node repo4 s4 of
                  (repo5, s5) \<Rightarrow> Some (Ret repo5 s5))))"
  unfolding collectExtraData_def earlyStages_def Let_def
  by (simp split: prod.splits option.splits outcome.splits)

lemma earlyStages_repo:
  assumes "earlyStages rc org node s = Some (Ret repo t)"
  shows "Repository repo = node \<and> \<not> NoBranchProtectionPermission repo"
proof -
  from assms obtain repo1 err1 s1 t1 repo2 err2 s2 t2 err3 s3 where
    v: "getVulnerabilityAlerts rc (newRepository node) (Login org) s = (repo1, err1, s1)" and
    h: "getRepositoryHooks rc repo1 (Login org) t1 = Some (Ret (repo2, err2) s2)" and
    c: "getRepoCollaborators rc repo2 (Login org) t2 = (repo, err3, s3)"
    unfolding earlyStages_def Let_def
    by (auto split: prod.splits option.splits outcome.splits)
  from early_stages_flag[OF v h c] show ?thesis .
qed

lemma extends_missing:
  "extends P (\<lambda>_. False) R s s' \<Longrightarrow> missingPermissions s' = missingPermissions s"
  unfolding extends_def by (elim conjE exE) (case_tac ps; simp)

text \<open>
  Claim C2. A repository enters the branch-protection stage as \<open>repo\<close>, in state
  \<open>t\<close>; it is not a private repository of a free-plan organization, the structured
  query gave its default branch no rule, and the branch-protection lookup fails
  with \<open>err\<close>. Then the unit of the repository completes and emits the repository,
  once, with the rule still absent. If \<open>err\<close> is the canonical "branch not
  protected" error, the flag \<open>NoBranchProtectionPermission\<close> is unset and no
  missing-permission record is added. If \<open>err\<close> is an error response whose message
  is "Not Found", the flag is set and exactly one record is added, for the
  repository, with capability RepoAdmin. Any other error is returned by
  \<open>fixBranchProtectionInfo\<close> to its caller, the flag is unset and no record is added.
\<close>

theorem lookup_failed_repository_emitted:
  assumes reached: "earlyStages rc org node s = Some (Ret repo t)"
    and made: "\<not> IsPrivate node \<or> \<not> IsFree org"
    and ref: "DefaultBranchRef node = Some ref"
    and rule: "BranchProtectionRule ref = None"
    and lookup: "GetBranchProtection rc (Login org) (Name node) (RefName ref) (world t) = (Inl err, w)"
  shows "\<exists>repo' err' t' e s'.
           fixBranchProtectionInfo rc repo (Login org) t = (repo', err', t') \<and>
           err' = (if err = ErrBranchNotProtected \<or> err = ErrorResponse ''Not Found''
                   then None else Some err) \<and>
           processItem rc org node s = Some (Ret () s') \<and>
           collected s' = collected s @
             [\<lparr>CollectedOrg = org, CollectedEntity = e, CanonicalLink = Url node,
               ViewerRoles = [OrgRole org, ViewerPermission node]\<rparr>] \<and>
           Repository e = node \<and>
           NoBranchProtectionPermission e = (err = ErrorResponse ''Not Found'') \<and>
           missingPermissions s' = missingPermissions t @
             (if err = ErrorResponse ''Not Found''
              then [\<lparr>Permission = RepoAdmin, Entity = fullRepoName (Login org) (Name node),
                      Effect = ''Cannot read repository branch protection information'',
                      MPNamespace = NamespaceRepository\<rparr>]
              else [])"
proof -
  from earlyStages_repo[OF reached] have r: "Repository repo = node"
    and flag: "\<not> NoBranchProtectionPermission repo" by simp_all
  from ref r have ref': "DefaultBranchRef (Repository repo) = Some ref" by simp
  from lookup r have lookup': "GetBranchProtection rc (Login org) (Name (Repository repo))
                                 (RefName ref) (world t) = (Inl err, w)" by simp
  have noperm: "isNoPermErr err \<longleftrightarrow> err = ErrorResponse ''Not Found''"
    by (cases err) (simp_all add: isNoPermErr_def)
  let ?t' = "t\<lparr>world := w,
               calls := calls t @ [CallGetBranchProtection (Login org) (Name node) (RefName ref)]\<rparr>"
  let ?repo' = "if err = ErrorResponse ''Not Found''
                then repo\<lparr>NoBranchProtectionPermission := True\<rparr> else repo"
  let ?err' = "if err = ErrBranchNotProtected \<or> err = ErrorResponse ''Not Found''
               then None else Some err"
  from ref' rule lookup' noperm r
  have fx: "fixBranchProtectionInfo rc repo (Login org) t = (?repo', ?err', ?t')"
    by (simp add: fixBranchProtectionInfo_def netCall_def)
  let ?s4 = "logIfErr ?err' ''error getting branch protection info for %s: %s''
               [ArgStr (Name node)] ?t'"
  from fx made r have stage: "branchProtectionStage rc org node repo (Login org) t = (?repo', ?s4)"
    by (simp add: branchProtectionStage_def)
  obtain repo5 s5 where sc: "scorecardStage rc node ?repo' ?s4 = (repo5, s5)"
    by (cases "scorecardStage rc node ?repo' ?s4")
  from collectExtraData_earlyStages[of rc org node s] reached stage sc
  have e: "collectExtraData rc org node s = Some (Ret repo5 s5)" by simp
  then have "processItem rc org node s =
               Some (Ret () (collectionChangeByOne
                 (collectData org repo5 (Url (Repository repo5))
                    [OrgRole org, ViewerPermission (Repository repo5)]
                    (issueMissingPermissions
                       (checkMissingPermissions repo5 (fullRepoName (Login org) (Name (Repository repo5))))
                       s5))))"
    by (simp add: processItem_def Let_def)
  then obtain s' where run: "processItem rc org node s = Some (Ret () s')" by blast
  from processItem_Ret[OF run] e have
    c: "collected s' = collected s5 @
             [\<lparr>CollectedOrg = org, CollectedEntity = repo5, CanonicalLink = Url node,
               ViewerRoles = [OrgRole org, ViewerPermission node]\<rparr>]" and
    m: "missingPermissions s' = missingPermissions s5 @
             checkMissingPermissions repo5 (fullRepoName (Login org) (Name node))"
    by auto
  from collectExtraData_extends[OF e] have "collected s5 = collected s"
    by (simp add: extends_collected)
  moreover from scorecardStage_repo[OF sc] r have r5: "Repository repo5 = node"
    "NoBranchProtectionPermission repo5 = (err = ErrorResponse ''Not Found'')"
    using flag by (auto split: if_splits)
  moreover from scorecardStage_extends[OF sc]
  have "missingPermissions s5 = missingPermissions ?s4" by (rule extends_missing)
  then have "missingPermissions s5 = missingPermissions t"
    by (simp add: logIfErr_def logPrintf_def split: option.splits)
  ultimately show ?thesis
    using fx run c m
    by (intro exI[of _ ?repo'] exI[of _ ?err'] exI[of _ ?t'] exI[of _ repo5] exI[of _ s'])
       (simp add: checkMissingPermissions_def newMissingPermission_def)
qed

theorem lookup_failed_repository_emitted_witness:
  "earlyStages platformNoPermission acme publicRepo emptyState
     = Some (Ret siteEnriched siteEnrichedState) \<and>
   \<not> IsPrivate publicRepo \<and>
   DefaultBranchRef publicRepo = Some \<lparr>RefName = ''main'', BranchProtectionRule = None\<rparr> \<and>
   GetBranchProtection platformNoPermission (Login acme) (Name publicRepo) ''main''
       (world siteEnrichedState)
     = (Inl (ErrorResponse ''Not Found''), 0) \<and>
   (\<exists>e s'. processItem platformNoPermission acme publicRepo emptyState = Some (Ret () s') \<and>
      collected s' =
        [\<lparr>CollectedOrg = acme, CollectedEntity = e, CanonicalLink = Url publicRepo,
          ViewerRoles = [OrgRole acme, ViewerPermission publicRepo]\<rparr>] \<and>
      Repository e = publicRepo \<and> NoBranchProtectionPermission e \<and>
      missingPermissions s' =
        [\<lparr>Permission = RepoAdmin, Entity = ''acme/site'',
          Effect = ''Cannot read repository branch protection information'',
          MPNamespace = NamespaceRepository\<rparr>])"
proof -
  have reached: "earlyStages platformNoPermission acme publicRepo emptyState
     = Some (Ret siteEnriched siteEnrichedState)"
    by code_simp
  have pub: "\<not> IsPrivate publicRepo" by (simp add: publicRepo_def)
  have ref: "DefaultBranchRef publicRepo = Some \<lparr>RefName = ''main'', BranchProtectionRule = None\<rparr>"
    by (simp add: publicRepo_def)
  have rule: "BranchProtectionRule \<lparr>RefName = ''main'', BranchProtectionRule = None\<rparr> = None"
    by simp
  have call: "GetBranchProtection platformNoPermission (Login acme) (Name publicRepo) ''main''
                (world siteEnrichedState) = (Inl (ErrorResponse ''Not Found''), 0)"
    by (simp add: platformNoPermission_def platform_def siteEnrichedState_def)
  have lookup: "GetBranchProtection platformNoPermission (Login acme) (Name publicRepo)
                  (RefName \<lparr>RefName = ''main'', BranchProtectionRule = None\<rparr>)
                  (world siteEnrichedState) = (Inl (ErrorResponse ''Not Found''), 0)"
    using call by simp
  have name: "fullRepoName (Login acme) (Name publicRepo) = ''acme/site''"
    by (simp add: fullRepoName_def acme_def publicRepo_def)
  from pub have made: "\<not> IsPrivate publicRepo \<or> \<not> IsFree acme" by simp
  from lookup_failed_repository_emitted[OF reached made ref rule lookup] name
  have "\<exists>e s'. processItem platformNoPermission acme publicRepo emptyState = Some (Ret () s') \<and>
      collected s' =
        [\<lparr>CollectedOrg = acme, CollectedEntity = e, CanonicalLink = Url publicRepo,
          ViewerRoles = [OrgRole acme, ViewerPermission publicRepo]\<rparr>] \<and>
      Repository e = publicRepo \<and> NoBranchProtectionPermission e \<and>
      missingPermissions s' =
        [\<lparr>Permission = RepoAdmin, Entity = ''acme/site'',
          Effect = ''Cannot read repository branch protection information'',
          MPNamespace = NamespaceRepository\<rparr>]"
    by (auto simp: emptyState_def siteEnrichedState_def)
  with reached pub ref call show ?thesis by blast
qed

subsection \<open>The metadata count\<close>


lemma stepUnit_missingPermissions:
  "missingPermissions (collector (stepUnit rc i c)) = missingPermissions (collector c) \<and>
   logs (collector (stepUnit rc i c)) = logs (collector c) \<and>
   collected (collector (stepUnit rc i c)) = collected (collector c)"
  by (simp add: stepUnit_def netCall_def split: countUnit.splits prod.splits sum.splits)

lemma runSchedule_missingPermissions:
  "missingPermissions (collector (runSchedule rc schedule c)) = missingPermissions (collector c) \<and>
   logs (collector (runSchedule rc schedule c)) = logs (collector c) \<and>
   collected (collector (runSchedule rc schedule c)) = collected (collector c)"
  by (induction schedule arbitrary: c) (simp_all add: stepUnit_missingPermissions)

lemma CollectMetadata_discovery_fails:
  assumes "CollectOrganizations rc (world s) = (Inl err, w)"
  shows "CollectMetadata rc schedule s =
           (\<lparr>TotalEntities = 0\<rparr>,
            s\<lparr>world := w, calls := calls s @ [CallCollectOrganizations],
              logs := logs s @ [(''failed to collect organization %s'', [ArgErr err])]\<rparr>)"
  using assms by (simp add: CollectMetadata_def netCall_def logPrintf_def)

lemma CollectMetadata_silent:
  assumes "CollectOrganizations rc (world s) = (Inr orgs, w)"
  shows "missingPermissions (snd (CollectMetadata rc schedule s)) = missingPermissions s \<and>
         logs (snd (CollectMetadata rc schedule s)) = logs s"
  using assms
  by (simp add: CollectMetadata_def netCall_def Let_def gwWait_def runSchedule_missingPermissions)

lemma three_steps:
  assumes "length pre = k"
  shows "stepUnit rc k (stepUnit rc k (stepUnit rc k
           \<lparr>units = pre @ AtQuery login # rest, totalCount = t, collector = s\<rparr>))
         = (case netCall (QueryTotalCount rc login) (CallQueryTotalCount login) s of
              (Inl e, s') \<Rightarrow> \<lparr>units = pre @ Finished # rest, totalCount = t, collector = s'\<rparr>
            | (Inr n, s') \<Rightarrow> \<lparr>units = pre @ Finished # rest, totalCount = t + n, collector = s'\<rparr>)"
  using assms
  by (auto simp: stepUnit_def nth_append split: prod.splits sum.splits)

lemma runSchedule_in_order:
  "length pre = k \<Longrightarrow>
   runSchedule rc (concat (map (\<lambda>i. [i, i, i]) [k..<k + length logins]))
     \<lparr>units = pre @ map AtQuery logins, totalCount = t, collector = s\<rparr>
   = (case countInOrder rc logins t s of
        (t', s') \<Rightarrow> \<lparr>units = pre @ replicate (length logins) Finished, totalCount = t',
                     collector = s'\<rparr>)"
proof (induction logins arbitrary: pre k t s)
  case Nil
  then show ?case by simp
next
  case (Cons login logins)
  have "[k..<k + Suc (length logins)] = k # [Suc k..<k + Suc (length logins)]"
    by (rule upt_conv_Cons) simp
  then have up: "[k..<k + length (login # logins)] = k # [Suc k..<Suc k + length logins]"
    by simp
  have len: "length (pre @ [Finished]) = Suc k" using Cons.prems by simp
  obtain r s1 where q: "netCall (QueryTotalCount rc login) (CallQueryTotalCount login) s = (r, s1)"
    by (cases "netCall (QueryTotalCount rc login) (CallQueryTotalCount login) s")
  show ?case
  proof (cases r)
    case (Inl e)
    with q three_steps[OF Cons.prems, of rc login "map AtQuery logins" t s]
      Cons.IH[OF len, of t s1]
    show ?thesis unfolding up by (simp add: replicate_app_Cons_same)
  next
    case (Inr n)
    with q three_steps[OF Cons.prems, of rc login "map AtQuery logins" t s]
      Cons.IH[OF len, of "t + n" s1]
    show ?thesis unfolding up by (simp add: replicate_app_Cons_same)
  qed
qed

lemma countInOrder_trace:
  "countInOrder rc logins tot s = (tot', s') \<Longrightarrow>
   \<exists>qs. calls s' = calls s @ qs \<and> length qs = length logins \<and>
        tot' = tot + sum_list (countsOf qs)"
proof (induction logins arbitrary: tot s)
  case Nil
  then show ?case by simp
next
  case (Cons login logins)
  obtain r s1 where q: "netCall (QueryTotalCount rc login) (CallQueryTotalCount login) s = (r, s1)"
    by (cases "netCall (QueryTotalCount rc login) (CallQueryTotalCount login) s")
  then have s1: "calls s1 = calls s @ [CallQueryTotalCount login r]"
    by (auto simp: netCall_def split: prod.splits)
  show ?case
  proof (cases r)
    case (Inl e)
    with Cons.prems q have "countInOrder rc logins tot s1 = (tot', s')" by simp
    from Cons.IH[OF this] obtain qs where
      "calls s' = calls s1 @ qs" "length qs = length logins" "tot' = tot + sum_list (countsOf qs)"
      by blast
    with s1 Inl show ?thesis
      by (intro exI[of _ "CallQueryTotalCount login r # qs"]) simp
  next
    case (Inr n)
    with Cons.prems q have "countInOrder rc logins (tot + n) s1 = (tot', s')" by simp
    from Cons.IH[OF this] obtain qs where
      "calls s' = calls s1 @ qs" "length qs = length logins"
      "tot' = tot + n + sum_list (countsOf qs)"
      by blast
    with s1 Inr show ?thesis
      by (intro exI[of _ "CallQueryTotalCount login r # qs"]) (simp add: add.assoc)
  qed
qed

text \<open>When the units run one after the other, the total is the sum of the counts
  that the successful queries returned, in \<open>int32\<close> arithmetic, one query having
  been made for each organization.\<close>

lemma CollectMetadata_units_in_order:
  assumes "CollectOrganizations rc (world s) = (Inr orgs, w)"
  shows "\<exists>qs s'. CollectMetadata rc [] s = (\<lparr>TotalEntities = sint (sum_list (countsOf qs))\<rparr>, s') \<and>
           calls s' = calls s @ CallCollectOrganizations # qs \<and> length qs = length orgs"
proof -
  let ?s1 = "s\<lparr>world := w, calls := calls s @ [CallCollectOrganizations]\<rparr>"
  let ?logins = "map Login orgs"
  obtain tot s' where c: "countInOrder rc ?logins 0 ?s1 = (tot, s')"
    by (cases "countInOrder rc ?logins 0 ?s1")
  from countInOrder_trace[OF c] obtain qs where
    qs: "calls s' = calls ?s1 @ qs" "length qs = length ?logins" "tot = 0 + sum_list (countsOf qs)"
    by blast
  have "runSchedule rc (concat (map (\<lambda>i. [i, i, i]) [0..<0 + length ?logins]))
          \<lparr>units = [] @ map AtQuery ?logins, totalCount = 0, collector = ?s1\<rparr>
        = \<lparr>units = [] @ replicate (length ?logins) Finished, totalCount = tot, collector = s'\<rparr>"
    using runSchedule_in_order[of "[]" 0 rc ?logins 0 ?s1] c by simp
  then have "CollectMetadata rc [] s = (\<lparr>TotalEntities = sint tot\<rparr>, s')"
    using assms by (simp add: CollectMetadata_def netCall_def gwWait_def comp_def)
  with qs show ?thesis by (intro exI[of _ qs] exI[of _ s']) simp
qed

lemma CollectMetadata_examples:
  "fst (CollectMetadata platform [] emptyState) = \<lparr>TotalEntities = 2\<rparr>"
  "fst (CollectMetadata platformCountFails [] emptyState) = \<lparr>TotalEntities = 7\<rparr>"
  "fst (CollectMetadata platformCountFails [1, 0, 1, 0, 1] emptyState) = \<lparr>TotalEntities = 7\<rparr>"
  by code_simp+

text \<open>
  Claim C5, where the code departs from it. \<open>CollectMetadata\<close> issues one count
  query per discovered organization, but the total it returns need not be the sum
  of the counts: the units add to \<open>totalCount\<close> without synchronization. With two
  organizations of one repository each, when both units load \<open>totalCount\<close> before
  either stores its sum, the second store overwrites the first and the total
  returned is 1, where the counts add up to 2.
\<close>

theorem CollectMetadata_lost_update:
  "CollectOrganizations platform (world emptyState) = (Inr [acme, globex], 0) \<and>
   countsOf (calls (snd (CollectMetadata platform [0, 1, 0, 1, 0, 1] emptyState))) = [1, 1] \<and>
   fst (CollectMetadata platform [0, 1, 0, 1, 0, 1] emptyState) = \<lparr>TotalEntities = 1\<rparr>"
proof -
  have 1: "CollectOrganizations platform (world emptyState) = (Inr [acme, globex], 0)"
    by (simp add: platform_def emptyState_def)
  have 2: "countsOf (calls (snd (CollectMetadata platform [0, 1, 0, 1, 0, 1] emptyState))) = [1, 1]"
    by code_simp
  have 3: "fst (CollectMetadata platform [0, 1, 0, 1, 0, 1] emptyState) = \<lparr>TotalEntities = 1\<rparr>"
    by code_simp
  from 1 2 3 show ?thesis by simp
qed

subsection \<open>Units and retries\<close>

lemma gwDo_returning [simp]: "gwDo (returning f) s = f s"
  by (simp add: gwDo_def returning_def split: option.splits)






subsection \<open>Growth along a traversal\<close>


lemma processItem_extends:
  assumes "processItem rc org node s = Some out"
  shows "extends isEnrichmentCall (\<lambda>_. True) (\<lambda>_. True) s (outcomeState out)"
proof (cases out)
  case (Ret u s')
  with assms have r: "processItem rc org node s = Some (Ret u s')" by simp
  from processItem_emits[OF r] Ret show ?thesis
    unfolding extends_def by (auto simp: list_all_iff)
next
  case (Panicked s')
  with assms have r: "processItem rc org node s = Some (Panicked s')" by simp
  from processItem_Panicked[OF r] Panicked show ?thesis
    unfolding extends_def by (auto simp: list_all_iff)
qed

lemma gwDo_extends:
  assumes "gwDo unit s = Some s'"
    and "\<And>out. unit s = Some out \<Longrightarrow> extends P Q R s (outcomeState out)"
  shows "extends P Q R s s'"
  using assms unfolding gwDo_def
  by (auto split: option.splits outcome.splits)

lemma processNodes_extends:
  "processNodes rc org nodes s = Some s' \<Longrightarrow>
   extends isEnrichmentCall (\<lambda>_. True) (\<lambda>_. True) s s'"
proof (induction nodes arbitrary: s)
  case Nil
  then show ?case by (simp add: extends_refl)
next
  case (Cons node nodes)
  from Cons.prems obtain s1 where
    1: "gwDo (processItem rc org node) s = Some s1" and
    2: "processNodes rc org nodes s1 = Some s'"
    by (auto split: option.splits)
  have "extends isEnrichmentCall (\<lambda>_. True) (\<lambda>_. True) s s1"
    by (rule gwDo_extends[OF 1]) (rule processItem_extends)
  with Cons.IH[OF 2] show ?case
    by (blast intro: extends_trans)
qed

lemma collectRepositoriesFrom_extends:
  assumes run: "collectRepositoriesFrom rc org cursor s = Some (err, s')"
  shows "extends isTraversalCall (\<lambda>_. True) (\<lambda>_. True) s s'"
proof -
  let ?E = "extends isTraversalCall (\<lambda>_. True) (\<lambda>_. True)"
  have "rc = rc \<and> org = org \<longrightarrow> ?E s (snd (err, s'))"
  proof (rule collectRepositoriesFrom.raw_induct
      [where P = "\<lambda>rc' org' cursor s out. rc' = rc \<and> org' = org \<longrightarrow> ?E s (snd out)",
        OF _ run])
    fix rec rc' org' cursor s out
    assume IH: "\<And>rc' org' cursor s out. rec rc' org' cursor s = Some out \<Longrightarrow>
                  rc' = rc \<and> org' = org \<longrightarrow> ?E s (snd out)"
      and body: "(case netCall (QueryRepositories rc' (Login org') cursor)
                         (CallQueryRepositories (Login org') cursor) s of
                    (Inl err, s1) \<Rightarrow> Some (Some err, s1)
                  | (Inr query, s1) \<Rightarrow>
                      (case gwDo (returning (processNodes rc' org' (Nodes query))) s1 of
                         None \<Rightarrow> None
                       | Some s2 \<Rightarrow>
                           if \<not> HasNextPage (PageInfo query) then Some (None, s2)
                           else rec rc' org' (Some (EndCursor (PageInfo query))) s2)) = Some out"
    show "rc' = rc \<and> org' = org \<longrightarrow> ?E s (snd out)"
    proof
      assume eq: "rc' = rc \<and> org' = org"
      obtain r s1 where q: "netCall (QueryRepositories rc (Login org) cursor)
                              (CallQueryRepositories (Login org) cursor) s = (r, s1)"
        by (cases "netCall (QueryRepositories rc (Login org) cursor)
                     (CallQueryRepositories (Login org) cursor) s")
      have 1: "?E s s1"
        by (rule extends_netCall[OF q]) (simp add: isTraversalCall_def)
      show "?E s (snd out)"
      proof (cases r)
        case (Inl e)
        with body eq q 1 show ?thesis by auto
      next
        case (Inr query)
        with body eq q obtain s2 where
          p: "processNodes rc org (Nodes query) s1 = Some s2" and
          rest: "(if \<not> HasNextPage (PageInfo query) then Some (None, s2)
                  else rec rc org (Some (EndCursor (PageInfo query))) s2) = Some out"
          by (auto split: option.splits)
        have 2: "?E s1 s2"
          by (rule extends_mono[OF processNodes_extends[OF p]]) (simp_all add: isTraversalCall_def)
        show ?thesis
        proof (cases "HasNextPage (PageInfo query)")
          case False
          with rest extends_trans[OF 1 2] show ?thesis by auto
        next
          case True
          with rest have "rec rc org (Some (EndCursor (PageInfo query))) s2 = Some out" by simp
          from IH[OF this] have "?E s2 (snd out)" by simp
          with extends_trans[OF 1 2] show ?thesis by (blast intro: extends_trans)
        qed
      qed
    qed
  qed
  then show ?thesis by simp
qed

lemma collectRepositories_first_query:
  assumes "collectRepositories rc org s = Some (err, s')"
  shows "\<exists>reply cs. calls s' = calls s @ CallQueryRepositories (Login org) None reply # cs"
proof -
  obtain r s1 where q: "netCall (QueryRepositories rc (Login org) None)
                          (CallQueryRepositories (Login org) None) s = (r, s1)"
    by (cases "netCall (QueryRepositories rc (Login org) None)
                 (CallQueryRepositories (Login org) None) s")
  then have c1: "calls s1 = calls s @ [CallQueryRepositories (Login org) None r]"
    by (auto simp: netCall_def split: prod.splits)
  show ?thesis
  proof (cases r)
    case (Inl e)
    with assms q have "s' = s1"
      unfolding collectRepositories_def by (subst (asm) collectRepositoriesFrom.simps) simp
    with c1 show ?thesis by simp
  next
    case (Inr query)
    with assms q obtain s2 where
      p: "processNodes rc org (Nodes query) s1 = Some s2" and
      rest: "(if \<not> HasNextPage (PageInfo query) then Some (None, s2)
              else collectRepositoriesFrom rc org (Some (EndCursor (PageInfo query))) s2)
             = Some (err, s')"
      unfolding collectRepositories_def
      by (subst (asm) collectRepositoriesFrom.simps) (auto split: option.splits)
    from processNodes_extends[OF p] obtain cs2 where c2: "calls s2 = calls s1 @ cs2"
      unfolding extends_def by blast
    show ?thesis
    proof (cases "HasNextPage (PageInfo query)")
      case False
      with rest c1 c2 show ?thesis by auto
    next
      case True
      with rest have "collectRepositoriesFrom rc org (Some (EndCursor (PageInfo query))) s2
                        = Some (err, s')" by simp
      from collectRepositoriesFrom_extends[OF this] obtain cs3 where "calls s' = calls s2 @ cs3"
        unfolding extends_def by blast
      with c1 c2 show ?thesis by simp
    qed
  qed
qed

lemma collectRepositories_extends:
  "collectRepositories rc org s = Some (err, s') \<Longrightarrow>
   extends isTraversalCall (\<lambda>_. True) (\<lambda>_. True) s s'"
  unfolding collectRepositories_def by (rule collectRepositoriesFrom_extends)


lemma retryAttempts_extends:
  assumes "retryAttempts operation n lastErr s = Some (e, s')"
    and "\<And>s r s1. operation s = Some (r, s1) \<Longrightarrow> extends P Q R s s1"
  shows "extends P Q R s s'"
  using assms(1)
proof (induction n arbitrary: lastErr s)
  case 0
  then show ?case by (simp add: extends_refl)
next
  case (Suc n)
  from Suc.prems obtain ok err s1 where
    a: "operation s = Some ((ok, err), s1)" and
    r: "(if ok \<and> err = None then Some (None, s1) else retryAttempts operation n err s1) = Some (e, s')"
    by (auto split: option.splits prod.splits)
  from assms(2)[OF a] have 1: "extends P Q R s s1" .
  show ?case
  proof (cases "ok \<and> err = None")
    case True
    with r 1 show ?thesis by auto
  next
    case False
    with r have "retryAttempts operation n err s1 = Some (e, s')" by simp
    from Suc.IH[OF this] 1 show ?thesis by (blast intro: extends_trans)
  qed
qed

lemma collectOrg_first_query:
  assumes "collectOrg rc org s = Some s'"
  shows "\<exists>reply cs. calls s' = calls s @ CallQueryRepositories (Login org) None reply # cs"
proof -
  let ?op = "\<lambda>s. case collectRepositories rc org s of
                    None \<Rightarrow> None
                  | Some (err, s') \<Rightarrow> Some ((True, err), s')"
  from assms obtain e t where
    r5: "retryAttempts ?op 5 None s = Some (e, t)" and
    s': "s' = logIfErr e ''%s: %s'' [ArgStr (''collect repositories for '' @ Login org)] t"
    unfolding collectOrg_def Retry_def by (auto split: option.splits prod.splits)
  have five: "(5::nat) = Suc 4" by simp
  from r5 have "retryAttempts ?op (Suc 4) None s = Some (e, t)" by (simp only: five)
  then have "(case ?op s of
                None \<Rightarrow> None
              | Some ((ok, err), s') \<Rightarrow>
                  (if ok \<and> err = None then Some (None, s')
                   else retryAttempts ?op 4 err s')) = Some (e, t)"
    by (simp only: retryAttempts.simps)
  then obtain err s1 where
    a: "collectRepositories rc org s = Some (err, s1)" and
    rest: "(if err = None then Some (None, s1) else retryAttempts ?op 4 err s1) = Some (e, t)"
    by (auto split: option.splits prod.splits)
  from collectRepositories_first_query[OF a] obtain reply cs where
    c1: "calls s1 = calls s @ CallQueryRepositories (Login org) None reply # cs" by blast
  have "extends (\<lambda>_. True) (\<lambda>_. True) (\<lambda>_. True) s1 t"
  proof (cases "err = None")
    case True
    with rest show ?thesis by (auto simp: extends_refl)
  next
    case False
    with rest have "retryAttempts ?op 4 err s1 = Some (e, t)" by simp
    then show ?thesis
      by (rule retryAttempts_extends)
         (auto split: option.splits prod.splits
               elim!: extends_mono[OF collectRepositories_extends])
  qed
  then obtain cs2 where "calls t = calls s1 @ cs2" unfolding extends_def by blast
  with c1 s' show ?thesis
    by (simp add: logIfErr_def logPrintf_def split: option.splits)
qed

lemma collectOrg_extends:
  assumes "collectOrg rc org s = Some s'"
  shows "extends isTraversalCall (\<lambda>_. True) (\<lambda>_. True) s s'"
proof -
  let ?op = "\<lambda>s. case collectRepositories rc org s of
                    None \<Rightarrow> None
                  | Some (err, s') \<Rightarrow> Some ((True, err), s')"
  from assms obtain e t where
    r: "retryAttempts ?op 5 None s = Some (e, t)" and
    s': "s' = logIfErr e ''%s: %s'' [ArgStr (''collect repositories for '' @ Login org)] t"
    unfolding collectOrg_def Retry_def by (auto split: option.splits prod.splits)
  have "extends isTraversalCall (\<lambda>_. True) (\<lambda>_. True) s t"
    by (rule retryAttempts_extends[OF r])
       (auto split: option.splits prod.splits elim!: collectRepositories_extends)
  then show ?thesis unfolding s' by (rule extends_logged)
qed

subsection \<open>Collect\<close>


lemma collectOrgs_queries:
  assumes "collectOrgs rc orgs s = Some s'"
  shows "(\<exists>cs. calls s' = calls s @ cs) \<and>
         (\<forall>org\<in>set orgs. \<exists>cursor reply. CallQueryRepositories (Login org) cursor reply \<in> set (calls s'))"
  using assms
proof (induction orgs arbitrary: s)
  case Nil
  then show ?case by simp
next
  case (Cons org orgs)
  from Cons.prems obtain s1 where
    1: "collectOrg rc org s = Some s1" and 2: "collectOrgs rc orgs s1 = Some s'"
    by (auto split: option.splits)
  from collectOrg_first_query[OF 1] obtain reply cs where
    c1: "calls s1 = calls s @ CallQueryRepositories (Login org) None reply # cs" by blast
  from Cons.IH[OF 2] obtain cs2 where
    c2: "calls s' = calls s1 @ cs2" and
    rest: "\<forall>org\<in>set orgs. \<exists>cursor reply. CallQueryRepositories (Login org) cursor reply \<in> set (calls s')"
    by blast
  from c1 c2 have "CallQueryRepositories (Login org) None reply \<in> set (calls s')" by simp
  with rest c1 c2 show ?case by auto
qed

lemma collectOrgs_returns:
  assumes "\<forall>org\<in>set orgs. \<forall>t. collectOrg rc org t \<noteq> None"
  shows "\<exists>s'. collectOrgs rc orgs s = Some s'"
  using assms
proof (induction orgs arbitrary: s)
  case Nil
  then show ?case by simp
next
  case (Cons org orgs)
  from Cons.prems have "collectOrg rc org s \<noteq> None" by simp
  then obtain s1 where 1: "collectOrg rc org s = Some s1" by blast
  from Cons.prems have "\<forall>org\<in>set orgs. \<forall>t. collectOrg rc org t \<noteq> None" by simp
  from Cons.IH[OF this] obtain s' where "collectOrgs rc orgs s1 = Some s'" by blast
  with 1 show ?case by simp
qed

text \<open>
  Claim C4. If the discovery of the organizations fails at the start of \<open>Collect\<close>,
  the run ends there: it has made the discovery call and logged the failure, and
  nothing else has changed, so that no entity is emitted, no missing permission is
  recorded and no repository is queried. This is the only failure that ends the
  run: when the discovery succeeds and the unit of every organization returns, the
  run returns and has queried the repositories of every discovered organization,
  whatever errors the traversals ran into.
\<close>

theorem Collect_discovery:
  "(CollectOrganizations rc (world s) = (Inl err, w) \<longrightarrow>
      Collect rc s =
        Some (s\<lparr>world := w, calls := calls s @ [CallCollectOrganizations],
               logs := logs s @ [(''failed to collect organizations %s'', [ArgErr err])]\<rparr>)) \<and>
   (CollectOrganizations rc (world s) = (Inr orgs, w) \<and>
    (\<forall>org\<in>set orgs. \<forall>t. collectOrg rc org t \<noteq> None) \<longrightarrow>
      (\<exists>s'. Collect rc s = Some s' \<and>
            (\<forall>org\<in>set orgs. \<exists>cursor reply.
               CallQueryRepositories (Login org) cursor reply \<in> set (calls s'))))"
proof (intro conjI impI)
  assume "CollectOrganizations rc (world s) = (Inl err, w)"
  then show "Collect rc s =
        Some (s\<lparr>world := w, calls := calls s @ [CallCollectOrganizations],
               logs := logs s @ [(''failed to collect organizations %s'', [ArgErr err])]\<rparr>)"
    by (simp add: Collect_def netCall_def logPrintf_def)
next
  assume a: "CollectOrganizations rc (world s) = (Inr orgs, w) \<and>
             (\<forall>org\<in>set orgs. \<forall>t. collectOrg rc org t \<noteq> None)"
  let ?s1 = "totalCollectionChange 0 (s\<lparr>world := w, calls := calls s @ [CallCollectOrganizations]\<rparr>)"
  from a have c: "Collect rc s = collectOrgs rc orgs ?s1"
    by (simp add: Collect_def netCall_def)
  from a collectOrgs_returns[of orgs rc ?s1] obtain s' where r: "collectOrgs rc orgs ?s1 = Some s'"
    by blast
  from collectOrgs_queries[OF r] c r
  show "\<exists>s'. Collect rc s = Some s' \<and>
            (\<forall>org\<in>set orgs. \<exists>cursor reply.
               CallQueryRepositories (Login org) cursor reply \<in> set (calls s'))"
    by auto
qed

lemma collectRepositories_platformDown:
  "collectRepositories platformDown org t =
     Some (Some (OtherError ''502''),
           t\<lparr>world := Suc (world t),
             calls := calls t @ [CallQueryRepositories (Login org) None (Inl (OtherError ''502''))]\<rparr>)"
  unfolding collectRepositories_def
  by (subst collectRepositoriesFrom.simps) (simp add: netCall_def platformDown_def)

lemma collectOrg_platformDown: "collectOrg platformDown org t \<noteq> None"
  by (simp add: collectOrg_def Retry_def collectRepositories_platformDown numeral_eq_Suc)

theorem Collect_discovery_witness:
  "CollectOrganizations platformNoOrganizations (world emptyState)
     = (Inl (OtherError ''bad credentials''), 0) \<and>
   Collect platformNoOrganizations emptyState =
     Some (emptyState\<lparr>calls := [CallCollectOrganizations],
             logs := [(''failed to collect organizations %s'', [ArgErr (OtherError ''bad credentials'')])]\<rparr>) \<and>
   CollectOrganizations platformDown (world emptyState) = (Inr [acme, globex], 0) \<and>
   (\<exists>s'. Collect platformDown emptyState = Some s' \<and>
         (\<exists>cursor reply. CallQueryRepositories ''acme'' cursor reply \<in> set (calls s')) \<and>
         (\<exists>cursor reply. CallQueryRepositories ''globex'' cursor reply \<in> set (calls s')))"
proof -
  have f: "CollectOrganizations platformNoOrganizations (world emptyState)
             = (Inl (OtherError ''bad credentials''), 0)"
    by (simp add: platformNoOrganizations_def platform_def emptyState_def)
  have d: "CollectOrganizations platformDown (world emptyState) = (Inr [acme, globex], 0)"
    by (simp add: platformDown_def platform_def emptyState_def)
  have t: "\<forall>org\<in>set [acme, globex]. \<forall>t. collectOrg platformDown org t \<noteq> None"
    by (simp add: collectOrg_platformDown)
  from Collect_discovery[of platformNoOrganizations emptyState "OtherError ''bad credentials''" 0 "[]"] f
  have 1: "Collect platformNoOrganizations emptyState =
     Some (emptyState\<lparr>calls := [CallCollectOrganizations],
             logs := [(''failed to collect organizations %s'', [ArgErr (OtherError ''bad credentials'')])]\<rparr>)"
    by (simp add: emptyState_def)
  from Collect_discovery[of platformDown emptyState "OtherError ''x''" 0 "[acme, globex]"] d t
  obtain s' where "Collect platformDown emptyState = Some s'"
    "\<forall>org\<in>set [acme, globex]. \<exists>cursor reply.
       CallQueryRepositories (Login org) cursor reply \<in> set (calls s')"
    by blast
  then have 2: "\<exists>s'. Collect platformDown emptyState = Some s' \<and>
         (\<exists>cursor reply. CallQueryRepositories ''acme'' cursor reply \<in> set (calls s')) \<and>
         (\<exists>cursor reply. CallQueryRepositories ''globex'' cursor reply \<in> set (calls s'))"
    by (intro exI[of _ s']) (simp add: acme_def globex_def)
  from f d 1 2 show ?thesis by blast
qed



lemmas enrichment_defs =
  processItem_def collectExtraData_def getVulnerabilityAlerts_def getRepositoryHooks_def
  PaginateResults.simps listHooksPage_def getRepoCollaborators_def branchProtectionStage_def
  fixBranchProtectionInfo_def scorecardStage_def netCall_def newRepository_def logIfErr_def
  appendSlice_def isNoPermErr_def checkMissingPermissions_def issueMissingPermissions_def
  collectData_def collectionChangeByOne_def fullRepoName_def Let_def






subsection \<open>The pages of a traversal\<close>


lemma isEnrichmentCall_not_query: "isEnrichmentCall c \<Longrightarrow> \<not> isRepositoriesQuery c"
  by (cases c) simp_all

lemma processNodes_complete:
  assumes items: "itemsComplete rc org"
  shows "\<exists>s'. processNodes rc org nodes s = Some s' \<and>
           (\<exists>new. collected s' = collected s @ new \<and>
                  map (Repository \<circ> CollectedEntity) new = nodes) \<and>
           filter isRepositoriesQuery (calls s') = filter isRepositoriesQuery (calls s)"
proof (induction nodes arbitrary: s)
  case Nil
  show ?case by simp
next
  case (Cons node nodes)
  from items obtain s1 where r: "processItem rc org node s = Some (Ret () s1)"
    unfolding itemsComplete_def by blast
  from processItem_emits[OF r] obtain e cs where
    e: "collected s1 = collected s @ [e]" "Repository (CollectedEntity e) = node" and
    cs: "calls s1 = calls s @ cs" "list_all isEnrichmentCall cs"
    by blast
  from cs have q1: "filter isRepositoriesQuery (calls s1) = filter isRepositoriesQuery (calls s)"
    by (simp add: list_all_iff filter_empty_conv isEnrichmentCall_not_query)
  from Cons.IH[of s1] obtain s' new where
    p: "processNodes rc org nodes s1 = Some s'" and
    n: "collected s' = collected s1 @ new" "map (Repository \<circ> CollectedEntity) new = nodes" and
    q2: "filter isRepositoriesQuery (calls s') = filter isRepositoriesQuery (calls s1)"
    by blast
  from r p have "processNodes rc org (node # nodes) s = Some s'"
    by (simp add: gwDo_def)
  moreover from e n have "collected s' = collected s @ (e # new) \<and>
      map (Repository \<circ> CollectedEntity) (e # new) = node # nodes" by simp
  ultimately show ?case using q1 q2 by metis
qed

lemma collectRepositoriesFrom_pages:
  assumes det: "deterministicPages rc pageOf"
    and items: "itemsComplete rc org"
  shows "pagesVisited (pageOf (Login org)) n cursor = Some (pages, err) \<Longrightarrow>
         \<exists>s'. collectRepositoriesFrom rc org cursor s = Some (err, s') \<and>
           (\<exists>new. collected s' = collected s @ new \<and>
                  map (Repository \<circ> CollectedEntity) new = concat (map Nodes pages)) \<and>
           filter isRepositoriesQuery (calls s')
             = filter isRepositoriesQuery (calls s) @ expectedQueries (Login org) cursor pages err"
proof (induction n arbitrary: cursor s pages)
  case 0
  then show ?case by simp
next
  case (Suc n)
  obtain w where q: "QueryRepositories rc (Login org) cursor (world s)
                       = (pageOf (Login org) cursor, w)"
    using det unfolding deterministicPages_def
    by (metis prod.collapse)
  let ?s1 = "s\<lparr>world := w,
               calls := calls s @ [CallQueryRepositories (Login org) cursor (pageOf (Login org) cursor)]\<rparr>"
  from q have nc: "netCall (QueryRepositories rc (Login org) cursor)
                     (CallQueryRepositories (Login org) cursor) s
                   = (pageOf (Login org) cursor, ?s1)"
    by (simp add: netCall_def)
  show ?case
  proof (cases "pageOf (Login org) cursor")
    case (Inl e)
    with Suc.prems have pe: "pages = []" "err = Some e" by simp_all
    from nc Inl have "collectRepositoriesFrom rc org cursor s = Some (Some e, ?s1)"
      by (subst collectRepositoriesFrom.simps) simp
    with pe Inl show ?thesis by simp
  next
    case (Inr query)
    from processNodes_complete[OF items, of "Nodes query" ?s1] obtain s2 new where
      p: "processNodes rc org (Nodes query) ?s1 = Some s2" and
      n: "collected s2 = collected ?s1 @ new" "map (Repository \<circ> CollectedEntity) new = Nodes query" and
      k: "filter isRepositoriesQuery (calls s2) = filter isRepositoriesQuery (calls ?s1)"
      by blast
    show ?thesis
    proof (cases "HasNextPage (PageInfo query)")
      case False
      with Suc.prems Inr have pe: "pages = [query]" "err = None" by simp_all
      from nc Inr p False have "collectRepositoriesFrom rc org cursor s = Some (None, s2)"
        by (subst collectRepositoriesFrom.simps) (simp add: gwDo_returning)
      with pe n k Inr show ?thesis by (simp add: comp_def)
    next
      case True
      with Suc.prems Inr obtain rest where
        v: "pagesVisited (pageOf (Login org)) n (Some (EndCursor (PageInfo query))) = Some (rest, err)"
        and pe: "pages = query # rest"
        by (auto split: option.splits)
      from Suc.IH[OF v, of s2] obtain s' new' where
        r: "collectRepositoriesFrom rc org (Some (EndCursor (PageInfo query))) s2 = Some (err, s')" and
        n': "collected s' = collected s2 @ new'"
          "map (Repository \<circ> CollectedEntity) new' = concat (map Nodes rest)" and
        k': "filter isRepositoriesQuery (calls s')
               = filter isRepositoriesQuery (calls s2)
                 @ expectedQueries (Login org) (Some (EndCursor (PageInfo query))) rest err"
        by blast
      from nc Inr p True r have "collectRepositoriesFrom rc org cursor s = Some (err, s')"
        by (subst collectRepositoriesFrom.simps) (simp add: gwDo_returning)
      moreover from n n' pe have "collected s' = collected s @ (new @ new') \<and>
          map (Repository \<circ> CollectedEntity) (new @ new') = concat (map Nodes pages)"
        by simp
      moreover from k k' pe Inr have "filter isRepositoriesQuery (calls s')
             = filter isRepositoriesQuery (calls s) @ expectedQueries (Login org) cursor pages err"
        by simp
      ultimately show ?thesis by blast
    qed
  qed
qed

text \<open>
  Over a deterministic transport that lets the unit of every item complete, the
  traversal of an organization asks for the first page with a nil cursor, then
  feeds each page's end cursor into the next query while has-more is true, and
  returns at the first query that fails, with its error: the repository queries
  in the trace are exactly those of the spec's traversal \<open>pagesVisited\<close>. The
  repositories emitted are the items of the pages visited, in order, each once;
  when the pages do not overlap the emitted entities are distinct and the number
  of distinct repositories equals the sum of the page-item counts.
\<close>

lemma collectRepositories_pages:
  assumes det: "deterministicPages rc pageOf"
    and items: "itemsComplete rc org"
    and visited: "pagesVisited (pageOf (Login org)) n None = Some (pages, err)"
  shows "\<exists>s' new.
           collectRepositories rc org s = Some (err, s') \<and>
           collected s' = collected s @ new \<and>
           map (Repository \<circ> CollectedEntity) new = concat (map Nodes pages) \<and>
           (distinct (concat (map Nodes pages)) \<longrightarrow>
              distinct new \<and>
              card (Repository ` CollectedEntity ` set new) = sum_list (map (length \<circ> Nodes) pages)) \<and>
           filter isRepositoriesQuery (calls s')
             = filter isRepositoriesQuery (calls s) @ expectedQueries (Login org) None pages err"
proof -
  from collectRepositoriesFrom_pages[OF det items visited, of s] obtain s' new where
    r: "collectRepositoriesFrom rc org None s = Some (err, s')" and
    n: "collected s' = collected s @ new"
      "map (Repository \<circ> CollectedEntity) new = concat (map Nodes pages)" and
    k: "filter isRepositoriesQuery (calls s')
             = filter isRepositoriesQuery (calls s) @ expectedQueries (Login org) None pages err"
    by blast
  have d: "distinct new \<and>
           card (Repository ` CollectedEntity ` set new) = sum_list (map (length \<circ> Nodes) pages)"
    if dis: "distinct (concat (map Nodes pages))"
  proof -
    from dis n(2) have dm: "distinct (map (Repository \<circ> CollectedEntity) new)" by simp
    then have "distinct new" by (rule distinct_map[THEN iffD1, THEN conjunct1])
    moreover have "Repository ` CollectedEntity ` set new = set (concat (map Nodes pages))"
      unfolding n(2)[symmetric] by (simp add: image_image)
    then have "card (Repository ` CollectedEntity ` set new) = length (concat (map Nodes pages))"
      using dis by (simp only: distinct_card)
    moreover have "length (concat (map Nodes pages)) = sum_list (map (length \<circ> Nodes) pages)"
      by (simp add: length_concat comp_def)
    ultimately show ?thesis by simp
  qed
  from r n k d show ?thesis
    unfolding collectRepositories_def by blast
qed

lemma platform_item:
  "\<exists>s'. processItem (platform\<lparr>QueryRepositories := q\<rparr>) org node s = Some (Ret () s')"
  by (simp add: enrichment_defs platform_def split: option.splits)

lemma collectRepositories_pages_example:
  "deterministicPages platformTwoPages twoPages \<and>
   itemsComplete platformTwoPages acme \<and>
   pagesVisited (twoPages (Login acme)) 2 None
     = Some ([morePage ''c1'' [publicRepo], lastPage [privateRepo]], None) \<and>
   (\<exists>s' new. collectRepositories platformTwoPages acme emptyState = Some (None, s') \<and>
      collected s' = new \<and>
      map (Repository \<circ> CollectedEntity) new = [publicRepo, privateRepo] \<and>
      distinct new \<and> card (Repository ` CollectedEntity ` set new) = 2 \<and>
      filter isRepositoriesQuery (calls s')
        = [CallQueryRepositories ''acme'' None (Inr (morePage ''c1'' [publicRepo])),
           CallQueryRepositories ''acme'' (Some ''c1'') (Inr (lastPage [privateRepo]))])"
proof -
  have det: "deterministicPages platformTwoPages twoPages"
    by (simp add: deterministicPages_def platformTwoPages_def)
  have items: "itemsComplete platformTwoPages acme"
    unfolding itemsComplete_def platformTwoPages_def by (simp add: platform_item)
  have visited: "pagesVisited (twoPages (Login acme)) 2 None
     = Some ([morePage ''c1'' [publicRepo], lastPage [privateRepo]], None)"
    by (simp add: numeral_2_eq_2 twoPages_def morePage_def lastPage_def)
  have dis: "distinct (concat (map Nodes [morePage ''c1'' [publicRepo], lastPage [privateRepo]]))"
    by (simp add: morePage_def lastPage_def publicRepo_def privateRepo_def)
  from collectRepositories_pages[OF det items visited, of emptyState] dis
  have "\<exists>s' new. collectRepositories platformTwoPages acme emptyState = Some (None, s') \<and>
      collected s' = new \<and>
      map (Repository \<circ> CollectedEntity) new = [publicRepo, privateRepo] \<and>
      distinct new \<and> card (Repository ` CollectedEntity ` set new) = 2 \<and>
      filter isRepositoriesQuery (calls s')
        = [CallQueryRepositories ''acme'' None (Inr (morePage ''c1'' [publicRepo])),
           CallQueryRepositories ''acme'' (Some ''c1'') (Inr (lastPage [privateRepo]))]"
    by (simp add: emptyState_def morePage_def lastPage_def acme_def numeral_2_eq_2)
  with det items visited show ?thesis by blast
qed

text \<open>
  Claim C7, where the code departs from it. On \<open>platformHooksUnreachable\<close> the
  transport is deterministic and the traversal of \<open>acme\<close> visits one page of one
  repository before has-more is false, so that the page-item counts add up to 1.
  The traversal returns without an error and has emitted no repository: the unit
  of the item panicked in the webhook stage, and the item is dropped.
\<close>

theorem traversal_drops_item:
  "deterministicPages platformHooksUnreachable onePage \<and>
   pagesVisited (onePage (Login acme)) 1 None = Some ([lastPage [publicRepo]], None) \<and>
   sum_list (map (length \<circ> Nodes) [lastPage [publicRepo]]) = 1 \<and>
   collectRepositories platformHooksUnreachable acme emptyState = Some (None, hooksUnreachableRun) \<and>
   card (set (collected hooksUnreachableRun)) = 0"
proof -
  have 1: "deterministicPages platformHooksUnreachable onePage"
    by (simp add: deterministicPages_def platformHooksUnreachable_def platform_def onePage_def)
  have 2: "pagesVisited (onePage (Login acme)) 1 None = Some ([lastPage [publicRepo]], None)"
    by (simp add: onePage_def lastPage_def)
  have 3: "sum_list (map (length \<circ> Nodes) [lastPage [publicRepo]]) = 1"
    by (simp add: lastPage_def)
  have 4: "collectRepositories platformHooksUnreachable acme emptyState
             = Some (None, hooksUnreachableRun)"
    by code_simp
  have 5: "card (set (collected hooksUnreachableRun)) = 0"
    by (simp add: hooksUnreachableRun_def)
  from 1 2 3 4 5 show ?thesis by simp
qed

subsection \<open>The webhook listing\<close>


lemma getRepositoryHooks_error_with_response:
  assumes "ListHooks rc org (Name (Repository repo)) 0 (world s) = (HooksErr (Some resp) err, w)"
  shows "getRepositoryHooks rc repo org s =
           Some (Ret (repo, Some err)
             (s\<lparr>world := w,
                missingPermissions := missingPermissions s @
                  (if StatusCode resp = 404 then [hookPerm org (Name (Repository repo))] else []),
                calls := calls s @ [CallListHooks org (Name (Repository repo)) 0]\<rparr>))"
  using assms unfolding getRepositoryHooks_def
  by (subst PaginateResults.simps)
     (simp add: listHooksPage_def netCall_def issueMissingPermissions_def hookPerm_def)

lemma getRepositoryHooks_error_without_response:
  assumes "ListHooks rc org (Name (Repository repo)) 0 (world s) = (HooksErr None err, w)"
  shows "getRepositoryHooks rc repo org s =
           Some (Panicked
             (s\<lparr>world := w, calls := calls s @ [CallListHooks org (Name (Repository repo)) 0]\<rparr>))"
  using assms unfolding getRepositoryHooks_def
  by (subst PaginateResults.simps) (simp add: listHooksPage_def netCall_def)

lemma getRepositoryHooks_single_page:
  assumes "ListHooks rc org (Name (Repository repo)) 0 (world s) = (HooksOk hooks resp, w)"
    and "NextPage resp = 0"
  shows "getRepositoryHooks rc repo org s =
           Some (Ret (repo\<lparr>Hooks := appendSlice None hooks\<rparr>, None)
             (s\<lparr>world := w, calls := calls s @ [CallListHooks org (Name (Repository repo)) 0]\<rparr>))"
  using assms unfolding getRepositoryHooks_def
  by (subst PaginateResults.simps) (simp add: listHooksPage_def netCall_def)

text \<open>
  Claim C9, where the code departs from it. A webhook listing that fails before any
  response arrives returns an error and no response. The closure reads the status
  code of the response it does not have: the unit panics, \<open>getRepositoryHooks\<close>
  returns no repository, and the pipeline of the repository ends there.
\<close>

theorem getRepositoryHooks_no_response_panics:
  "ListHooks platformHooksUnreachable ''acme'' ''site'' 0 (world emptyState)
     = (HooksErr None (OtherError ''connection reset''), 0) \<and>
   getRepositoryHooks platformHooksUnreachable (newRepository publicRepo) ''acme'' emptyState
     = Some (Panicked (emptyState\<lparr>calls := [CallListHooks ''acme'' ''site'' 0]\<rparr>))"
proof -
  have l: "ListHooks platformHooksUnreachable ''acme'' (Name (Repository (newRepository publicRepo)))
             0 (world emptyState) = (HooksErr None (OtherError ''connection reset''), 0)"
    by (simp add: platformHooksUnreachable_def platform_def emptyState_def)
  from getRepositoryHooks_error_without_response[OF l] l show ?thesis
    by (simp add: emptyState_def newRepository_def publicRepo_def)
qed

text \<open>
  Claim C6, where the code departs from it. On the same platform the traversal of
  \<open>acme\<close> discovers one repository on its only page and returns without an error,
  and the repository has not been emitted: its unit panicked in the webhook stage.
\<close>

theorem unreachable_hooks_drop_repository:
  "collectRepositories platformHooksUnreachable acme emptyState = Some (None, hooksUnreachableRun) \<and>
   calls hooksUnreachableRun ! 0 = CallQueryRepositories ''acme'' None (Inr (lastPage [publicRepo])) \<and>
   collected hooksUnreachableRun = [] \<and> processed hooksUnreachableRun = 0"
proof -
  have 1: "collectRepositories platformHooksUnreachable acme emptyState = Some (None, hooksUnreachableRun)"
    by code_simp
  show ?thesis using 1 by (simp add: hooksUnreachableRun_def)
qed

end
